theory Spec2Isabelle
  imports Complex_Main
begin

section \<open>Numbers, errors and the numpy routines the notebook calls\<close>

text \<open>
  The notebook computes with numpy arrays of float64. Here an array is a \<open>real list\<close>
  and every arithmetic operation, \<open>np.sinh\<close> and \<open>np.sin\<close> is read as the exact real
  operation or function; a decimal literal is the rational it spells. \<open>np.pi\<close> is not the
  number \<open>pi\<close> but the float64 nearest to it, and is taken with its exact value
  (\<open>np_pi\<close> below), because the sine of \<open>np.pi\<close> is not zero and a claim depends on it.
  Rounding of the operations, NaN and the infinities are left out: an equation below
  is an equation of exact arithmetic and holds of the float64 values up to rounding only.
  The one exception is the section on float64, where the grid and the derivative are
  computed with the operations rounded, for the claim on the constant path. Where the code divides by zero, floats give a non-finite value and
  HOL gives \<open>0\<close>; the theorems keep away from such inputs by asking for a strictly
  increasing grid.

  \<open>np.arange\<close>, \<open>np.diff\<close>, \<open>np.gradient\<close> and \<open>np.trapz\<close> belong to numpy, not to the
  notebook. They are written down here from numpy's own array code, slice by slice.

  An exception is a value: a function that can raise returns \<open>error + 'a\<close>, with \<open>Inl\<close>
  for the exception.
\<close>

datatype error = ValueError | IndexError | ZeroDivisionError | UnboundLocalError string

text \<open>
  \<open>np.arange(start, stop, step)\<close>: the values \<open>start + i * step\<close> of the half-open
  interval from \<open>start\<close> to \<open>stop\<close>; their number is \<open>ceil((stop - start) / step)\<close>, none
  when that is negative. A zero step raises. numpy takes the ceiling of the float64
  quotient, which can differ from the ceiling of the exact quotient when the exact
  quotient is just beside an integer; for the notebook's call, \<open>1 / 0.001\<close>, both are
  \<open>1000\<close>.
\<close>

definition arange :: "real \<Rightarrow> real \<Rightarrow> real \<Rightarrow> error + real list" where
  "arange start stop step =
     (if step = 0 then Inl ZeroDivisionError
      else Inr (map (\<lambda>i. start + real i * step) [0..<nat \<lceil>(stop - start) / step\<rceil>]))"

text \<open>\<open>np.diff(a)\<close> is \<open>a[1:] - a[:-1]\<close>.\<close>

definition diff :: "real list \<Rightarrow> real list" where
  "diff a = map2 (\<lambda>hi lo. hi - lo) (tl a) (butlast a)"

text \<open>
  \<open>np.gradient(f, x)\<close> for one-dimensional \<open>f\<close> and a coordinate array \<open>x\<close>, with the
  default \<open>edge_order=1\<close>. The coordinates must be as many as the values. The spacings
  are \<open>np.diff(x)\<close>; reading their first element fails when there are fewer than two
  points. When all spacings are equal the uniform formula is used with that one spacing,
  otherwise the three-point formula with the coefficients \<open>a\<close>, \<open>b\<close>, \<open>c\<close>. The two end
  values are first-order one-sided differences. The spacings of the notebook's grid are
  equal as rationals and differ in the last place as float64 (lemma
  \<open>fl_spacings_differ\<close>), so that numpy takes the three-point branch there; the theorems
  on \<open>gradient\<close> hold for both branches. Slices
  are written as numpy writes them: \<open>f[2:]\<close> is \<open>drop 2 f\<close>, \<open>f[:-2]\<close> is
  \<open>take (length f - 2) f\<close>, \<open>f[1:-1]\<close> is \<open>butlast (tl f)\<close>; \<open>ew_add\<close> and \<open>ew_mul\<close> are the
  elementwise \<open>+\<close> and \<open>*\<close> of arrays.
\<close>

definition ew_add :: "real list \<Rightarrow> real list \<Rightarrow> real list" where
  "ew_add u v = map2 (\<lambda>p q. p + q) u v"

definition ew_mul :: "real list \<Rightarrow> real list \<Rightarrow> real list" where
  "ew_mul u v = map2 (\<lambda>p q. p * q) u v"

definition gradient_interior_uniform :: "real list \<Rightarrow> real \<Rightarrow> real list" where
  "gradient_interior_uniform f dx =
     map2 (\<lambda>f4 f2. (f4 - f2) / (2 * dx)) (drop 2 f) (take (length f - 2) f)"

definition gradient_interior :: "real list \<Rightarrow> real list \<Rightarrow> real list" where
  "gradient_interior f ax_dx =
     (let dx1 = butlast ax_dx;
          dx2 = tl ax_dx;
          a = map2 (\<lambda>d1 d2. - d2 / (d1 * (d1 + d2))) dx1 dx2;
          b = map2 (\<lambda>d1 d2. (d2 - d1) / (d1 * d2)) dx1 dx2;
          c = map2 (\<lambda>d1 d2. d1 / (d2 * (d1 + d2))) dx1 dx2
      in ew_add (ew_add (ew_mul a (take (length f - 2) f)) (ew_mul b (butlast (tl f))))
           (ew_mul c (drop 2 f)))"

definition gradient :: "real list \<Rightarrow> real list \<Rightarrow> error + real list" where
  "gradient f x =
     (if length x \<noteq> length f then Inl ValueError
      else if length x < 2 then Inl IndexError
      else
        let diffx = diff x;
            n = length f
        in if list_all (\<lambda>d. d = diffx ! 0) diffx
           then
             let dx = diffx ! 0
             in Inr ([(f ! 1 - f ! 0) / dx]
                     @ gradient_interior_uniform f dx
                     @ [(f ! (n - 1) - f ! (n - 2)) / dx])
           else
             Inr ([(f ! 1 - f ! 0) / diffx ! 0]
                  @ gradient_interior f diffx
                  @ [(f ! (n - 1) - f ! (n - 2)) / last diffx]))"

text \<open>
  \<open>np.trapz(y, x)\<close> is \<open>(d * (y[1:] + y[:-1]) / 2.0).sum()\<close> with \<open>d = np.diff(x)\<close>.
  The product broadcasts: the two factors have the same length, or one of them has
  length one; any other pair of shapes raises.
\<close>

definition trapz :: "real list \<Rightarrow> real list \<Rightarrow> error + real" where
  "trapz y x =
     (let d = diff x;
          s = map2 (\<lambda>hi lo. hi + lo) (tl y) (butlast y)
      in if length d = length s then Inr (sum_list (map2 (\<lambda>d_i s_i. d_i * s_i / 2) d s))
         else if length d = 1 then Inr (sum_list (map (\<lambda>s_i. d ! 0 * s_i / 2) s))
         else if length s = 1 then Inr (sum_list (map (\<lambda>d_i. d_i * s ! 0 / 2) d))
         else Inl ValueError)"

section \<open>The notebook\<close>

subsection \<open>The stationary path, the grid and the functional\<close>

definition y_star :: "real \<Rightarrow> real" where
  "y_star x = sinh x / sinh 1"

definition delta_x :: real where
  "delta_x = 0.001"

text \<open>
  The module-level grid. The call of \<open>arange\<close> has a non-zero step, so the error branch
  below is never taken (lemma \<open>arange_session\<close>).
\<close>

definition x_pts :: "real list" where
  "x_pts = (case arange 0 1 delta_x of Inr pts \<Rightarrow> pts | Inl e \<Rightarrow> [])"

text \<open>
  \<open>integrand\<close> is the array \<open>f\<close> of \<open>evaluate_functional\<close>. The first parameter of
  \<open>evaluate_functional\<close> is called \<open>x_pts\<close> in the notebook, where it hides the
  module-level grid of that name; it is \<open>xs\<close> here.
\<close>

definition integrand :: "real list \<Rightarrow> real list \<Rightarrow> real list" where
  "integrand y_pts y_deriv_pts =
     map2 (\<lambda>y d. d\<^sup>2 + y * d + y\<^sup>2) y_pts y_deriv_pts"

definition evaluate_functional :: "real list \<Rightarrow> real list \<Rightarrow> error + real" where
  "evaluate_functional xs y_pts =
     (case gradient y_pts xs of
        Inl e \<Rightarrow> Inl e
      | Inr y_deriv_pts \<Rightarrow> trapz (integrand y_pts y_deriv_pts) xs)"

subsection \<open>The two panels\<close>

text \<open>
  What the notebook keeps between calls is what its two axes hold: their title, axis
  labels, the limits set by hand, and the artists drawn so far, oldest first. Three kinds
  of artist are drawn: a curve \<open>plot(x, y, color=, lw=)\<close>, a single marker
  \<open>plot(a, v, '.', color=)\<close> and a horizontal line \<open>axhline(v, color=, alpha=)\<close>.
  \<open>fig.tight_layout()\<close> only lays the panels out and is not modelled. In the label of the
  second panel \<open>CHR 0x5C\<close> is the backslash.
\<close>

datatype artist =
    Curve "real list" "real list" string real
  | Marker real real string
  | HLine real string real

record axes =
  title :: string
  xlabel :: string
  ylabel :: string
  xlim :: "(real \<times> real) option"
  ylim :: "(real \<times> real) option"
  artists :: "artist list"

record figure =
  ax1 :: axes
  ax2 :: axes

definition blank_axes :: axes where
  "blank_axes = \<lparr>title = [], xlabel = [], ylabel = [], xlim = None, ylim = None, artists = []\<rparr>"

text \<open>\<open>ax.clear()\<close> removes everything the axes hold.\<close>

definition clear :: "axes \<Rightarrow> axes" where
  "clear ax = blank_axes"

definition draw :: "axes \<Rightarrow> artist \<Rightarrow> axes" where
  "draw ax a = ax\<lparr>artists := artists ax @ [a]\<rparr>"

definition setup_figure :: "figure \<Rightarrow> error + figure" where
  "setup_figure fg =
     (let a1 = (ax1 fg)\<lparr>title := ''Show paths''\<rparr>;
          a1 = draw a1 (Curve x_pts (map y_star x_pts) ''black'' 2);
          a1 = a1\<lparr>xlabel := ''x''\<rparr>;
          a1 = a1\<lparr>ylabel := ''y(x)''\<rparr>;
          a2 = (ax2 fg)\<lparr>title := ''Evaluate functional''\<rparr>;
          a2 = a2\<lparr>xlabel := ''$'' @ CHR 0x5C # ''alpha$''\<rparr>;
          a2 = a2\<lparr>ylabel := ''functional''\<rparr>;
          a2 = a2\<lparr>xlim := Some (- 0.4, 0.4)\<rparr>;
          a2 = a2\<lparr>ylim := Some (1.5, 3)\<rparr>
      in case evaluate_functional x_pts (map y_star x_pts) of
           Inl e \<Rightarrow> Inl e
         | Inr v \<Rightarrow> Inr \<lparr>ax1 = a1, ax2 = draw a2 (HLine v ''black'' 0.3)\<rparr>)"

subsection \<open>Candidate paths\<close>

text \<open>
  The \<open>if\<close>/\<open>elif\<close> chains of \<open>make_path\<close> bind the local names \<open>base\<close> and \<open>eta\<close>. A
  tag that matches no branch leaves the name unbound (\<open>None\<close>), and the first use of an
  unbound local raises \<open>UnboundLocalError\<close>.
\<close>

definition base :: "string \<Rightarrow> (real \<Rightarrow> real) option" where
  "base base_function =
     (if base_function = ''exact'' then Some (\<lambda>x. y_star x)
      else if base_function = ''guess 1'' then Some (\<lambda>x. sinh (2 * x) / sinh 2)
      else if base_function = ''guess 2'' then Some (\<lambda>x. x ^ 3)
      else None)"

text \<open>
  \<open>np.pi\<close> is the float64 \<open>3.141592653589793\<close>, which is \<open>884279719003555 / 2 ^ 48\<close>. It is
  a little less than \<open>pi\<close>, and its sine is about \<open>1.2246e-16\<close>.
\<close>

definition np_pi :: real where
  "np_pi = 884279719003555 / 281474976710656"

definition eta :: "string \<Rightarrow> (real \<Rightarrow> real) option" where
  "eta eta_function =
     (if eta_function = ''sine'' then Some (\<lambda>x. sin (np_pi * x))
      else if eta_function = ''parabola'' then Some (\<lambda>x. 4 * x * (1 - x))
      else None)"

definition x_mapped_pts :: "real list" where
  "x_mapped_pts = map (\<lambda>x. (x - x_pts ! 0) / (last x_pts - x_pts ! 0)) x_pts"

text \<open>
  The array \<open>y_new_pts\<close> of \<open>make_path\<close>: \<open>base(x_pts) + alpha * eta(x_mapped_pts)\<close>,
  where \<open>base\<close> is looked up before \<open>eta\<close>.
\<close>

definition y_new_pts :: "real \<Rightarrow> string \<Rightarrow> string \<Rightarrow> error + real list" where
  "y_new_pts alpha base_function eta_function =
     (case base base_function of
        None \<Rightarrow> Inl (UnboundLocalError ''base'')
      | Some b \<Rightarrow>
          (case eta eta_function of
             None \<Rightarrow> Inl (UnboundLocalError ''eta'')
           | Some e \<Rightarrow>
               Inr (ew_add (map b x_pts) (map (\<lambda>v. alpha * v) (map e x_mapped_pts)))))"

text \<open>
  \<open>make_path\<close> returns nothing; it draws the new path on the first axes it is given and
  a marker at \<open>(alpha, functional value)\<close> on the second. The result here is the pair of
  axes after the call. The notebook always passes its own two axes.

  \<open>reset_graph\<close> ignores its event argument, which is left out.
\<close>

definition make_path ::
  "real \<Rightarrow> axes \<Rightarrow> axes \<Rightarrow> string \<Rightarrow> string \<Rightarrow> error + axes \<times> axes" where
  "make_path alpha ax1_passed ax2_passed base_function eta_function =
     (case y_new_pts alpha base_function eta_function of
        Inl e \<Rightarrow> Inl e
      | Inr y \<Rightarrow>
          (let ax1_drawn = draw ax1_passed (Curve x_pts y ''red'' 1)
           in case evaluate_functional x_pts y of
                Inl e \<Rightarrow> Inl e
              | Inr v \<Rightarrow> Inr (ax1_drawn, draw ax2_passed (Marker alpha v ''red''))))"

definition reset_graph :: "figure \<Rightarrow> error + figure" where
  "reset_graph fg = setup_figure \<lparr>ax1 = clear (ax1 fg), ax2 = clear (ax2 fg)\<rparr>"

section \<open>The functional as the specification words it\<close>

text \<open>
  The specification describes \<open>evaluate_functional\<close> point by point: a one-sided
  difference at each end of the grid, a central difference at every interior point, the
  integrand \<open>y'\<^sup>2 + y y' + y\<^sup>2\<close> at each point, and the trapezoidal rule over the grid. The
  three definitions below follow those words, index by index; they are compared with the
  array code above. The central difference is the three-point one for spacings \<open>hs\<close> to
  the left and \<open>hd\<close> to the right, which is \<open>(y\<^sub>i\<^sub>+\<^sub>1 - y\<^sub>i\<^sub>-\<^sub>1) / (2 h)\<close> when both are \<open>h\<close>.
\<close>

definition spec_derivative :: "real list \<Rightarrow> real list \<Rightarrow> nat \<Rightarrow> real" where
  "spec_derivative xs y i =
     (if i = 0 then (y ! 1 - y ! 0) / (xs ! 1 - xs ! 0)
      else if i = length xs - 1 then (y ! i - y ! (i - 1)) / (xs ! i - xs ! (i - 1))
      else
        let hs = xs ! i - xs ! (i - 1);
            hd = xs ! (i + 1) - xs ! i
        in (hs\<^sup>2 * y ! (i + 1) + (hd\<^sup>2 - hs\<^sup>2) * y ! i - hd\<^sup>2 * y ! (i - 1))
             / (hs * hd * (hd + hs)))"

definition spec_integrand :: "real list \<Rightarrow> real list \<Rightarrow> nat \<Rightarrow> real" where
  "spec_integrand xs y i =
     (spec_derivative xs y i)\<^sup>2 + y ! i * spec_derivative xs y i + (y ! i)\<^sup>2"

definition spec_functional :: "real list \<Rightarrow> real list \<Rightarrow> real" where
  "spec_functional xs y =
     sum_list (map (\<lambda>i. (xs ! (i + 1) - xs ! i)
                          * (spec_integrand xs y i + spec_integrand xs y (i + 1)) / 2)
                   [0..<length xs - 1])"

section \<open>Notions for the scan over \<open>alpha\<close>\<close>

text \<open>
  With the base tag \<open>exact\<close> and the deviation tag \<open>sine\<close>, \<open>make_path\<close> adds \<open>alpha\<close> times
  the array \<open>eta(x_mapped_pts)\<close> to the array \<open>y_star(x_pts)\<close>; the two arrays are named
  \<open>sine_pts\<close> and \<open>ref_pts\<close> here. The functional of the sum is a quadratic in \<open>alpha\<close>. Its
  linear coefficient is the trapezoid sum of the mixed terms of the integrand, named
  \<open>cross_functional\<close>. The definitions after these name the values of the two arrays, and
  of the matching hyperbolic cosine, as functions of the index; they serve the proofs
  only.
\<close>

definition cross_integrand :: "real list \<Rightarrow> real list \<Rightarrow> real list \<Rightarrow> nat \<Rightarrow> real" where
  "cross_integrand xs a b i =
     2 * spec_derivative xs a i * spec_derivative xs b i
     + a ! i * spec_derivative xs b i + b ! i * spec_derivative xs a i + 2 * a ! i * b ! i"

definition cross_functional :: "real list \<Rightarrow> real list \<Rightarrow> real list \<Rightarrow> real" where
  "cross_functional xs a b =
     sum_list (map (\<lambda>i. (xs ! (i + 1) - xs ! i)
                          * (cross_integrand xs a b i + cross_integrand xs a b (i + 1)) / 2)
                   [0..<length xs - 1])"

definition ref_pts :: "real list" where
  "ref_pts = map y_star x_pts"

definition sine_pts :: "real list" where
  "sine_pts = map (\<lambda>x. sin (np_pi * x)) x_mapped_pts"

definition sinh_seq :: "nat \<Rightarrow> real" where
  "sinh_seq i = sinh (real i / 1000) / sinh 1"

definition cosh_seq :: "nat \<Rightarrow> real" where
  "cosh_seq i = cosh (real i / 1000) / sinh 1"

definition sine_seq :: "nat \<Rightarrow> real" where
  "sine_seq i = sin (real i * (np_pi / 999))"

text \<open>
  \<open>cos_poly k x\<close> is the sum of the first \<open>k\<close> non-zero terms of the cosine series at \<open>x\<close>.
  It serves to enclose the cosine of \<open>np_pi / 2\<close>.
\<close>

fun cos_poly :: "nat \<Rightarrow> real \<Rightarrow> real" where
  "cos_poly 0 x = 0"
| "cos_poly (Suc k) x = cos_poly k x + (- 1) ^ k * x ^ (2 * k) / fact (2 * k)"

section \<open>The grid and the derivative in float64\<close>













section \<open>Arrays, index by index\<close>

lemma length_diff: "length (diff a) = length a - 1"
  by (simp add: diff_def)

lemma nth_diff: "Suc i < length a \<Longrightarrow> diff a ! i = a ! Suc i - a ! i"
  by (simp add: diff_def nth_tl nth_butlast)

lemma length_gradient_interior_uniform:
  "length (gradient_interior_uniform f dx) = length f - 2"
  by (simp add: gradient_interior_uniform_def)

lemma nth_gradient_interior_uniform:
  "i + 2 < length f \<Longrightarrow>
   gradient_interior_uniform f dx ! i = (f ! (i + 2) - f ! i) / (2 * dx)"
  by (simp add: gradient_interior_uniform_def)

lemma length_gradient_interior:
  "length ax_dx = length f - 1 \<Longrightarrow> length (gradient_interior f ax_dx) = length f - 2"
  by (simp add: gradient_interior_def ew_add_def ew_mul_def Let_def)

lemma nth_gradient_interior:
  "length ax_dx = length f - 1 \<Longrightarrow> i + 2 < length f \<Longrightarrow>
   gradient_interior f ax_dx ! i =
     - ax_dx ! (i + 1) / (ax_dx ! i * (ax_dx ! i + ax_dx ! (i + 1))) * f ! i
     + (ax_dx ! (i + 1) - ax_dx ! i) / (ax_dx ! i * ax_dx ! (i + 1)) * f ! (i + 1)
     + ax_dx ! i / (ax_dx ! (i + 1) * (ax_dx ! i + ax_dx ! (i + 1))) * f ! (i + 2)"
  by (simp add: gradient_interior_def ew_add_def ew_mul_def Let_def nth_tl nth_butlast)

lemma three_point_coefficients:
  fixes hs hd :: real
  assumes "hs \<noteq> 0" "hd \<noteq> 0" "hs + hd \<noteq> 0"
  shows "- hd / (hs * (hs + hd)) * y0 + (hd - hs) / (hs * hd) * y1 + hs / (hd * (hs + hd)) * y2
         = (hs\<^sup>2 * y2 + (hd\<^sup>2 - hs\<^sup>2) * y1 - hd\<^sup>2 * y0) / (hs * hd * (hd + hs))"
proof -
  let ?D = "hs * hd * (hd + hs)"
  have a: "- hd / (hs * (hs + hd)) = (hd * - hd) / (hd * (hs * (hs + hd)))"
    by (rule mult_divide_mult_cancel_left [symmetric]) (rule assms(2))
  have hdhs: "hd + hs \<noteq> 0" using assms(3) by (simp add: add.commute)
  have b: "(hd - hs) / (hs * hd) = ((hd + hs) * (hd - hs)) / ((hd + hs) * (hs * hd))"
    by (rule mult_divide_mult_cancel_left [symmetric]) (rule hdhs)
  have c: "hs / (hd * (hs + hd)) = (hs * hs) / (hs * (hd * (hs + hd)))"
    by (rule mult_divide_mult_cancel_left [symmetric]) (rule assms(1))
  have da: "hd * (hs * (hs + hd)) = ?D" by (simp add: algebra_simps)
  have db: "(hd + hs) * (hs * hd) = ?D" by (simp add: algebra_simps)
  have dc: "hs * (hd * (hs + hd)) = ?D" by (simp add: algebra_simps)
  have "- hd / (hs * (hs + hd)) * y0 + (hd - hs) / (hs * hd) * y1 + hs / (hd * (hs + hd)) * y2
        = (hd * - hd) / ?D * y0 + ((hd + hs) * (hd - hs)) / ?D * y1 + (hs * hs) / ?D * y2"
    unfolding a b c da db dc ..
  also have "\<dots> = ((hd * - hd) * y0 + ((hd + hs) * (hd - hs)) * y1 + (hs * hs) * y2) / ?D"
    by (simp only: add_divide_distrib times_divide_eq_left)
  also have "(hd * - hd) * y0 + ((hd + hs) * (hd - hs)) * y1 + (hs * hs) * y2
             = hs\<^sup>2 * y2 + (hd\<^sup>2 - hs\<^sup>2) * y1 - hd\<^sup>2 * y0"
    by (simp add: power2_eq_square algebra_simps)
  finally show ?thesis .
qed

lemma three_point_uniform:
  fixes h :: real
  assumes "h \<noteq> 0"
  shows "(h\<^sup>2 * y2 + (h\<^sup>2 - h\<^sup>2) * y1 - h\<^sup>2 * y0) / (h * h * (h + h)) = (y2 - y0) / (2 * h)"
proof -
  have "(h\<^sup>2 * y2 + (h\<^sup>2 - h\<^sup>2) * y1 - h\<^sup>2 * y0) = (h * h) * (y2 - y0)"
    by (simp add: power2_eq_square algebra_simps)
  moreover have "h * h * (h + h) = (h * h) * (2 * h)" by simp
  moreover have "h * h \<noteq> 0" using assms by simp
  then have "(h * h) * (y2 - y0) / ((h * h) * (2 * h)) = (y2 - y0) / (2 * h)"
    by (rule mult_divide_mult_cancel_left)
  ultimately show ?thesis by (simp only:)
qed

lemma strict_grid_step:
  assumes "sorted_wrt (<) xs" "Suc i < length xs"
  shows "xs ! i < xs ! Suc i"
  using assms by (simp add: sorted_wrt_iff_nth_less)



lemma framed_nth_inner: "j < length m \<Longrightarrow> ([a] @ m @ [b]) ! Suc j = m ! j"
  by (simp add: nth_append)

lemma framed_nth_last: "([a] @ m @ [b]) ! Suc (length m) = b"
  by (simp add: nth_append)

lemma framed_nth:
  assumes "length m = n - 2" "2 \<le> n" "i < n"
  shows "([a] @ m @ [b]) ! i = (if i = 0 then a else if i = n - 1 then b else m ! (i - 1))"
proof -
  have "i = 0 \<or> (\<exists>j. i = Suc j \<and> j < length m) \<or> i = Suc (length m)"
    using assms by (cases i) auto
  then consider "i = 0" | j where "i = Suc j" "j < length m" | "i = Suc (length m)"
    by blast
  then show ?thesis
  proof cases
    case 1
    then show ?thesis by simp
  next
    case 2
    moreover have "i \<noteq> n - 1" using 2 assms by linarith
    ultimately show ?thesis using framed_nth_inner [of j m a b] by simp
  next
    case 3
    moreover have "i = n - 1" using 3 assms by linarith
    ultimately show ?thesis using framed_nth_last [of a m b] by (simp del: nth_append)
  qed
qed

lemma spec_derivative_first:
  "spec_derivative xs y 0 = (y ! 1 - y ! 0) / (xs ! 1 - xs ! 0)"
  by (simp add: spec_derivative_def)

lemma spec_derivative_last:
  "2 \<le> length xs \<Longrightarrow>
   spec_derivative xs y (length xs - 1)
     = (y ! (length xs - 1) - y ! (length xs - 2)) / (xs ! (length xs - 1) - xs ! (length xs - 2))"
  by (simp add: spec_derivative_def numeral_2_eq_2)

lemma spec_derivative_interior:
  "0 < i \<Longrightarrow> i < length xs - 1 \<Longrightarrow>
   spec_derivative xs y i =
     ((xs ! i - xs ! (i - 1))\<^sup>2 * y ! (i + 1)
      + ((xs ! (i + 1) - xs ! i)\<^sup>2 - (xs ! i - xs ! (i - 1))\<^sup>2) * y ! i
      - (xs ! (i + 1) - xs ! i)\<^sup>2 * y ! (i - 1))
     / ((xs ! i - xs ! (i - 1)) * (xs ! (i + 1) - xs ! i)
        * ((xs ! (i + 1) - xs ! i) + (xs ! i - xs ! (i - 1))))"
  by (simp add: spec_derivative_def Let_def)


lemma diff_step_pos:
  assumes "sorted_wrt (<) xs" "Suc i < length xs"
  shows "0 < diff xs ! i"
  using strict_grid_step [OF assms] nth_diff [OF assms(2)] by simp

lemma gradient_uniform_branch:
  assumes n: "2 \<le> length xs" and len: "length y = length xs" and inc: "sorted_wrt (<) xs"
    and uni: "list_all (\<lambda>d. d = diff xs ! 0) (diff xs)"
  shows "[(y ! 1 - y ! 0) / diff xs ! 0]
           @ gradient_interior_uniform y (diff xs ! 0)
           @ [(y ! (length y - 1) - y ! (length y - 2)) / diff xs ! 0]
         = map (spec_derivative xs y) [0..<length xs]" (is "?l = ?r")
proof (rule nth_equalityI)
  show "length ?l = length ?r"
    using n len by (simp add: length_gradient_interior_uniform)
next
  fix i assume "i < length ?l"
  then have i: "i < length xs"
    using n len by (simp add: length_gradient_interior_uniform)
  define h where "h = diff xs ! 0"
  have step: "xs ! Suc k - xs ! k = h" if "Suc k < length xs" for k
  proof -
    have "k < length (diff xs)" using that by (simp add: length_diff)
    then have "diff xs ! k = h" using uni by (simp add: list_all_length h_def)
    then show ?thesis using nth_diff [OF that] by simp
  qed
  have h0: "h \<noteq> 0" using diff_step_pos [OF inc, of 0] n by (simp add: h_def)
  have li: "?l ! i = (if i = 0 then (y ! 1 - y ! 0) / h
                      else if i = length xs - 1 then (y ! (length y - 1) - y ! (length y - 2)) / h
                      else gradient_interior_uniform y h ! (i - 1))"
    unfolding h_def [symmetric]
    by (rule framed_nth) (use n len i in \<open>simp_all add: length_gradient_interior_uniform\<close>)
  have ri: "?r ! i = spec_derivative xs y i" using i by simp
  consider "i = 0" | "i = length xs - 1" "0 < i" | "0 < i" "i < length xs - 1"
    using i by linarith
  then have "?l ! i = spec_derivative xs y i"
  proof cases
    case 1
    have "xs ! 1 - xs ! 0 = h" using step [of 0] n by simp
    then show ?thesis using 1 li by (simp add: spec_derivative_first)
  next
    case 2
    have "Suc (length xs - 2) = length xs - 1" using n by linarith
    then have "xs ! (length xs - 1) - xs ! (length xs - 2) = h"
      using step [of "length xs - 2"] n by simp
    then show ?thesis using 2 li len spec_derivative_last [OF n, of y] by simp
  next
    case 3
    obtain j where j: "i = Suc j" using 3 by (cases i) auto
    have j2: "j + 2 < length y" using 3 j len by simp
    have hs: "xs ! i - xs ! (i - 1) = h" using step [of j] 3 j by simp
    have hd: "xs ! (i + 1) - xs ! i = h" using step [of i] 3 by simp
    have "?l ! i = gradient_interior_uniform y h ! j" using 3 j li by simp
    also have "\<dots> = (y ! (j + 2) - y ! j) / (2 * h)"
      using j2 by (rule nth_gradient_interior_uniform)
    also have "\<dots> = (h\<^sup>2 * y ! (j + 2) + (h\<^sup>2 - h\<^sup>2) * y ! (j + 1) - h\<^sup>2 * y ! j) / (h * h * (h + h))"
      by (rule three_point_uniform [OF h0, symmetric])
    also have "\<dots> = spec_derivative xs y i"
      unfolding spec_derivative_interior [OF 3(1) 3(2)] hs hd using j by simp
    finally show ?thesis .
  qed
  then show "?l ! i = ?r ! i" using ri by simp
qed


lemma last_diff:
  assumes "2 \<le> length xs"
  shows "last (diff xs) = xs ! (length xs - 1) - xs ! (length xs - 2)"
proof -
  have ne: "diff xs \<noteq> []" using assms length_diff [of xs] by auto
  have s: "Suc (length xs - 2) = length xs - 1" using assms by linarith
  have "last (diff xs) = diff xs ! (length (diff xs) - 1)" using ne by (rule last_conv_nth)
  also have "length (diff xs) - 1 = length xs - 2" by (simp add: length_diff)
  also have "diff xs ! (length xs - 2) = xs ! Suc (length xs - 2) - xs ! (length xs - 2)"
    using assms by (intro nth_diff) linarith
  finally show ?thesis unfolding s .
qed

lemma gradient_general_branch:
  assumes n: "2 \<le> length xs" and len: "length y = length xs" and inc: "sorted_wrt (<) xs"
  shows "[(y ! 1 - y ! 0) / diff xs ! 0]
           @ gradient_interior y (diff xs)
           @ [(y ! (length y - 1) - y ! (length y - 2)) / last (diff xs)]
         = map (spec_derivative xs y) [0..<length xs]" (is "?l = ?r")
proof (rule nth_equalityI)
  have ldy: "length (diff xs) = length y - 1" using len by (simp add: length_diff)
  show "length ?l = length ?r"
    using n len ldy by (simp add: length_gradient_interior)
  fix i assume "i < length ?l"
  then have i: "i < length xs"
    using n len ldy by (simp add: length_gradient_interior)
  have li: "?l ! i = (if i = 0 then (y ! 1 - y ! 0) / diff xs ! 0
                      else if i = length xs - 1
                        then (y ! (length y - 1) - y ! (length y - 2)) / last (diff xs)
                      else gradient_interior y (diff xs) ! (i - 1))"
    by (rule framed_nth) (use n len i ldy in \<open>simp_all add: length_gradient_interior\<close>)
  have ri: "?r ! i = spec_derivative xs y i" using i by simp
  consider "i = 0" | "i = length xs - 1" "0 < i" | "0 < i" "i < length xs - 1"
    using i by linarith
  then have "?l ! i = spec_derivative xs y i"
  proof cases
    case 1
    have "diff xs ! 0 = xs ! 1 - xs ! 0" using nth_diff [of 0 xs] n by simp
    then show ?thesis using 1 li by (simp add: spec_derivative_first)
  next
    case 2
    then show ?thesis using li len spec_derivative_last [OF n, of y] last_diff [OF n] by simp
  next
    case 3
    obtain j where j: "i = Suc j" using 3 by (cases i) auto
    have j2: "j + 2 < length y" using 3 j len by simp
    define hs where "hs = xs ! i - xs ! (i - 1)"
    define hd where "hd = xs ! (i + 1) - xs ! i"
    have dj: "diff xs ! j = hs" using nth_diff [of j xs] 3 j by (simp add: hs_def)
    have dj1: "diff xs ! (j + 1) = hd" using nth_diff [of i xs] 3 j by (simp add: hd_def)
    have hs0: "0 < hs" using diff_step_pos [OF inc, of j] 3 j dj by simp
    have hd0: "0 < hd" using diff_step_pos [OF inc, of i] 3 j dj1 by simp
    have nz: "hs \<noteq> 0" "hd \<noteq> 0" "hs + hd \<noteq> 0" using hs0 hd0 by simp_all
    have "?l ! i = gradient_interior y (diff xs) ! j" using 3 j li by simp
    also have "\<dots> = - hd / (hs * (hs + hd)) * y ! j + (hd - hs) / (hs * hd) * y ! (j + 1)
                     + hs / (hd * (hs + hd)) * y ! (j + 2)"
      unfolding nth_gradient_interior [OF ldy j2] dj dj1 ..
    also have "\<dots> = (hs\<^sup>2 * y ! (j + 2) + (hd\<^sup>2 - hs\<^sup>2) * y ! (j + 1) - hd\<^sup>2 * y ! j)
                      / (hs * hd * (hd + hs))"
      by (rule three_point_coefficients [OF nz])
    also have "\<dots> = spec_derivative xs y i"
      unfolding spec_derivative_interior [OF 3(1) 3(2)] hs_def hd_def using j by simp
    finally show ?thesis .
  qed
  then show "?l ! i = ?r ! i" using ri by simp
qed

lemma gradient_spec:
  assumes n: "2 \<le> length xs" and len: "length y = length xs" and inc: "sorted_wrt (<) xs"
  shows "gradient y xs = Inr (map (spec_derivative xs y) [0..<length xs])"
proof (cases "list_all (\<lambda>d. d = diff xs ! 0) (diff xs)")
  case True
  then have "gradient y xs = Inr ([(y ! 1 - y ! 0) / diff xs ! 0]
           @ gradient_interior_uniform y (diff xs ! 0)
           @ [(y ! (length y - 1) - y ! (length y - 2)) / diff xs ! 0])"
    using n len by (simp add: gradient_def Let_def)
  then show ?thesis using gradient_uniform_branch [OF n len inc True] by simp
next
  case False
  then have "gradient y xs = Inr ([(y ! 1 - y ! 0) / diff xs ! 0]
           @ gradient_interior y (diff xs)
           @ [(y ! (length y - 1) - y ! (length y - 2)) / last (diff xs)])"
    using n len by (simp add: gradient_def Let_def)
  then show ?thesis using gradient_general_branch [OF n len inc] by simp
qed


lemma map2_conv_nth:
  assumes "length u = length v"
  shows "map2 g u v = map (\<lambda>i. g (u ! i) (v ! i)) [0..<length u]"
  by (rule nth_equalityI) (use assms in simp_all)

lemma trapz_same_length:
  assumes "length f = length xs"
  shows "trapz f xs
         = Inr (sum_list (map (\<lambda>i. (xs ! (i + 1) - xs ! i) * (f ! i + f ! (i + 1)) / 2)
                              [0..<length xs - 1]))"
proof -
  let ?s = "map2 (\<lambda>hi lo. hi + lo) (tl f) (butlast f)"
  have ls: "length ?s = length xs - 1" using assms by simp
  have ld: "length (diff xs) = length xs - 1" by (rule length_diff)
  have s_nth: "?s ! i = f ! i + f ! (i + 1)" if "i < length xs - 1" for i
    using that assms by (simp add: nth_tl nth_butlast)
  have d_nth: "diff xs ! i = xs ! (i + 1) - xs ! i" if "i < length xs - 1" for i
    using that nth_diff [of i xs] by simp
  have "trapz f xs = Inr (sum_list (map2 (\<lambda>d_i s_i. d_i * s_i / 2) (diff xs) ?s))"
    using ls ld by (simp add: trapz_def Let_def)
  also have "map2 (\<lambda>d_i s_i. d_i * s_i / 2) (diff xs) ?s
             = map (\<lambda>i. diff xs ! i * ?s ! i / 2) [0..<length (diff xs)]"
    using ls ld by (intro map2_conv_nth) simp
  also have "\<dots> = map (\<lambda>i. (xs ! (i + 1) - xs ! i) * (f ! i + f ! (i + 1)) / 2) [0..<length xs - 1]"
    unfolding ld by (rule map_cong [OF refl]) (simp add: s_nth d_nth del: map2_map_map)
  finally show ?thesis .
qed

lemma integrand_spec:
  assumes "length y = length xs"
  shows "integrand y (map (spec_derivative xs y) [0..<length xs])
         = map (spec_integrand xs y) [0..<length xs]"
  by (rule nth_equalityI) (use assms in \<open>simp_all add: integrand_def spec_integrand_def\<close>)

lemma evaluate_functional_spec_functional:
  assumes n: "2 \<le> length xs" and len: "length y = length xs" and inc: "sorted_wrt (<) xs"
  shows "evaluate_functional xs y = Inr (spec_functional xs y)"
proof -
  let ?f = "map (spec_integrand xs y) [0..<length xs]"
  have "evaluate_functional xs y = trapz ?f xs"
    by (simp add: evaluate_functional_def gradient_spec [OF n len inc] integrand_spec [OF len])
  also have "\<dots> = Inr (sum_list (map (\<lambda>i. (xs ! (i + 1) - xs ! i) * (?f ! i + ?f ! (i + 1)) / 2)
                              [0..<length xs - 1]))"
    by (rule trapz_same_length) simp
  also have "map (\<lambda>i. (xs ! (i + 1) - xs ! i) * (?f ! i + ?f ! (i + 1)) / 2) [0..<length xs - 1]
             = map (\<lambda>i. (xs ! (i + 1) - xs ! i)
                          * (spec_integrand xs y i + spec_integrand xs y (i + 1)) / 2)
                   [0..<length xs - 1]"
    by (rule map_cong [OF refl]) simp
  finally show ?thesis by (simp add: spec_functional_def)
qed

section \<open>The session grid\<close>

lemma arange_session: "arange 0 1 delta_x = Inr (map (\<lambda>i. real i / 1000) [0..<1000])"
  by (simp add: arange_def delta_x_def)

lemma x_pts_eq: "x_pts = map (\<lambda>i. real i / 1000) [0..<1000]"
  by (simp add: x_pts_def arange_session)

lemma length_x_pts: "length x_pts = 1000"
  by (simp add: x_pts_eq)

lemma nth_x_pts: "i < 1000 \<Longrightarrow> x_pts ! i = real i / 1000"
  by (simp add: x_pts_eq)

lemma x_pts_first: "x_pts ! 0 = 0"
  by (simp add: nth_x_pts)

lemma x_pts_last: "last x_pts = 999 / 1000"
proof -
  have "x_pts \<noteq> []" using length_x_pts by auto
  then have "last x_pts = x_pts ! (length x_pts - 1)" by (rule last_conv_nth)
  then show ?thesis by (simp add: length_x_pts nth_x_pts)
qed

lemma x_pts_increasing: "sorted_wrt (<) x_pts"
  by (simp add: sorted_wrt_iff_nth_less length_x_pts nth_x_pts)

lemma x_pts_range: "list_all (\<lambda>x. 0 \<le> x \<and> x \<le> 999 / 1000) x_pts"
  by (simp add: list_all_length length_x_pts nth_x_pts)

lemma one_not_in_x_pts: "1 \<notin> set x_pts"
proof
  assume "1 \<in> set x_pts"
  then have "(1::real) \<le> 999 / 1000" using x_pts_range by (auto simp: list_all_iff)
  then show False by simp
qed

lemma sum_list_diff:
  assumes "xs \<noteq> []"
  shows "sum_list (diff xs) = last xs - xs ! 0"
proof -
  have "sum_list (diff xs) = sum_list (map (\<lambda>i. diff xs ! i) [0..<length (diff xs)])"
    by (simp add: map_nth)
  also have "\<dots> = (\<Sum>i<length xs - 1. diff xs ! i)"
    by (simp add: length_diff interv_sum_list_conv_sum_set_nat atLeast0LessThan)
  also have "\<dots> = (\<Sum>i<length xs - 1. xs ! Suc i - xs ! i)"
    by (rule sum.cong [OF refl]) (simp add: nth_diff)
  also have "\<dots> = xs ! (length xs - 1) - xs ! 0"
    by (rule sum_lessThan_telescope)
  finally show ?thesis using assms by (simp add: last_conv_nth)
qed




section \<open>The constant path in float64\<close>










































section \<open>The functional\<close>

text \<open>
  Claim C1. On a grid of at least two strictly increasing points and a path of the same
  length, \<open>np.gradient\<close> returns the one-sided differences at the two ends and the
  central difference at every interior point, and \<open>evaluate_functional\<close> returns the
  trapezoidal sum of the integrand \<open>y'\<^sup>2 + y y' + y\<^sup>2\<close> formed from them. On equal spacings
  \<open>h\<close> the central difference is \<open>(y\<^sub>i\<^sub>+\<^sub>1 - y\<^sub>i\<^sub>-\<^sub>1) / (2 h)\<close>. The function takes the two
  arrays and returns the number: it reads and changes nothing else. A grid with a
  repeated point makes the code divide by zero, which floats answer with a non-finite
  value; such grids are left out.
\<close>

theorem evaluate_functional_central_trapezoid:
  assumes "2 \<le> length xs" and "length y = length xs" and "sorted_wrt (<) xs"
  shows "gradient y xs = Inr (map (spec_derivative xs y) [0..<length xs])
         \<and> evaluate_functional xs y = Inr (spec_functional xs y)
         \<and> (\<forall>i h. 0 < i \<and> i < length xs - 1
                  \<and> xs ! i - xs ! (i - 1) = h \<and> xs ! (i + 1) - xs ! i = h
                \<longrightarrow> spec_derivative xs y i = (y ! (i + 1) - y ! (i - 1)) / (2 * h))"
proof (intro conjI allI impI)
  show "gradient y xs = Inr (map (spec_derivative xs y) [0..<length xs])"
    using assms by (rule gradient_spec)
  show "evaluate_functional xs y = Inr (spec_functional xs y)"
    using assms by (rule evaluate_functional_spec_functional)
next
  fix i h
  assume a: "0 < i \<and> i < length xs - 1
             \<and> xs ! i - xs ! (i - 1) = h \<and> xs ! (i + 1) - xs ! i = h"
  then have i: "0 < i" "i < length xs - 1" and hs: "xs ! i - xs ! (i - 1) = h"
    and hd: "xs ! (i + 1) - xs ! i = h" by simp_all
  have "xs ! i < xs ! Suc i" using assms(3) i by (intro strict_grid_step) simp_all
  then have h0: "h \<noteq> 0" using hd by simp
  show "spec_derivative xs y i = (y ! (i + 1) - y ! (i - 1)) / (2 * h)"
    unfolding spec_derivative_interior [OF i] hs hd by (rule three_point_uniform [OF h0])
qed

theorem evaluate_functional_central_trapezoid_witness:
  "2 \<le> length [0, 1, 3 :: real] \<and> length [1, 2, 5 :: real] = length [0, 1, 3 :: real]
   \<and> sorted_wrt (<) [0, 1, 3 :: real]
   \<and> gradient [1, 2, 5] [0, 1, 3] = Inr [1, 7 / 6, 3 / 2]
   \<and> evaluate_functional [0, 1, 3] [1, 2, 5] = Inr (1147 / 24)"
proof -
  have d: "spec_derivative [0, 1, 3] [1, 2, 5] 0 = 1"
    "spec_derivative [0, 1, 3] [1, 2, 5] (Suc 0) = 7 / 6"
    "spec_derivative [0, 1, 3] [1, 2, 5] (Suc (Suc 0)) = 3 / 2"
    by (simp_all add: spec_derivative_def)
  have f: "spec_integrand [0, 1, 3] [1, 2, 5] 0 = 3"
    "spec_integrand [0, 1, 3] [1, 2, 5] (Suc 0) = 277 / 36"
    "spec_integrand [0, 1, 3] [1, 2, 5] (Suc (Suc 0)) = 139 / 4"
    by (simp_all add: spec_integrand_def d power2_eq_square)
  have s: "spec_functional [0, 1, 3] [1, 2, 5] = 1147 / 24"
    by (simp add: spec_functional_def upt_rec f)
  show ?thesis
    using evaluate_functional_central_trapezoid [of "[0, 1, 3]" "[1, 2, 5]"]
    by (simp add: d s)
qed



text \<open>
  Claim C10. The session grid is the thousand points \<open>i / 1000\<close> for \<open>i\<close> from \<open>0\<close> to \<open>999\<close>:
  it starts at \<open>0\<close>, ends at \<open>0.999\<close>, lies in the interval from \<open>0\<close> to \<open>0.999\<close> and does
  not contain \<open>1\<close>; the trapezoid panels of the grid add up to the width \<open>0.999\<close>.
\<close>

theorem x_pts_excludes_right_endpoint:
  "x_pts = map (\<lambda>i. real i / 1000) [0..<1000]
   \<and> length x_pts = 1000
   \<and> x_pts ! 0 = 0
   \<and> last x_pts = 999 / 1000
   \<and> 1 \<notin> set x_pts
   \<and> list_all (\<lambda>x. 0 \<le> x \<and> x \<le> 999 / 1000) x_pts
   \<and> sum_list (diff x_pts) = 999 / 1000"
proof -
  have "x_pts \<noteq> []" using length_x_pts by auto
  then have "sum_list (diff x_pts) = 999 / 1000"
    by (simp add: sum_list_diff x_pts_last x_pts_first)
  then show ?thesis
    using x_pts_eq length_x_pts x_pts_first x_pts_last one_not_in_x_pts x_pts_range
    by (intro conjI)
qed

section \<open>The constant \<open>np.pi\<close>\<close>

text \<open>
  \<open>np_pi\<close> lies a little below \<open>pi\<close>: its sine is positive and at most \<open>2e-16\<close>, its
  cosine is below \<open>-0.999\<close>. The bounds come from the Taylor polynomial of the cosine at
  \<open>np_pi / 2\<close>, evaluated in rational arithmetic, and the double-angle formulas.
\<close>

lemma cos_taylor_bound:
  fixes x :: real
  shows "\<bar>cos x - (\<Sum>m<n. cos_coeff m * x ^ m)\<bar> \<le> \<bar>x\<bar> ^ n / fact n"
proof -
  obtain t where "cos x = (\<Sum>m<n. cos_coeff m * x ^ m)
                          + (cos (t + 1 / 2 * real n * pi) / fact n) * x ^ n"
    using Maclaurin_cos_expansion [of x n] by blast
  then have "\<bar>cos x - (\<Sum>m<n. cos_coeff m * x ^ m)\<bar>
             = \<bar>cos (t + 1 / 2 * real n * pi)\<bar> * (\<bar>x\<bar> ^ n / fact n)"
    by (simp add: abs_mult power_abs)
  also have "\<dots> \<le> 1 * (\<bar>x\<bar> ^ n / fact n)"
    by (intro mult_right_mono) simp_all
  finally show ?thesis by simp
qed

lemma cos_sum_step:
  fixes x :: real
  shows "(\<Sum>m<n + 2. cos_coeff m * x ^ m)
         = (\<Sum>m<n. cos_coeff m * x ^ m) + cos_coeff n * x ^ n + cos_coeff (n + 1) * x ^ (n + 1)"
proof -
  have "n + 2 = Suc (Suc n)" by simp
  then show ?thesis by (simp only: sum.lessThan_Suc) simp
qed

lemma cos_coeff_even: "cos_coeff (2 * k) = (- 1) ^ k / fact (2 * k)"
  by (simp add: cos_coeff_def)

lemma cos_coeff_odd: "cos_coeff (2 * k + 1) = 0"
  by (simp add: cos_coeff_def)

lemma cos_sum_even_step:
  fixes x :: real
  shows "(\<Sum>m<2 * Suc k. cos_coeff m * x ^ m)
         = (\<Sum>m<2 * k. cos_coeff m * x ^ m) + (- 1) ^ k * x ^ (2 * k) / fact (2 * k)"
proof -
  have "2 * Suc k = 2 * k + 2" by simp
  then show ?thesis
    by (simp only: cos_sum_step cos_coeff_even cos_coeff_odd) simp
qed

lemma cos_sum_poly: "(\<Sum>m<2 * k. cos_coeff m * x ^ m) = cos_poly k x"
  by (induction k) (simp_all only: cos_sum_even_step cos_poly.simps, simp)

lemma cos_poly_numeral:
  "cos_poly (numeral n) x
   = cos_poly (pred_numeral n) x
     + (- 1) ^ pred_numeral n * x ^ (2 * pred_numeral n) / fact (2 * pred_numeral n)"
  by (simp add: numeral_eq_Suc)

lemma cos_poly_one: "cos_poly 1 x = 1"
  using cos_poly.simps(2) [of 0 x] by simp

lemma cos_poly_13_np_pi:
  "6 / 10 ^ 17 + 2 ^ 26 / fact 26 \<le> cos_poly 13 (884279719003555 / 562949953421312)"
  "cos_poly 13 (884279719003555 / 562949953421312) + 2 ^ 26 / fact 26 \<le> 7 / 10 ^ 17"
  by (simp_all add: cos_poly_numeral cos_poly_one fact_numeral power_divide)

lemma cos_half_np_pi: "6 / 10 ^ 17 \<le> cos (np_pi / 2)" "cos (np_pi / 2) \<le> 7 / 10 ^ 17"
proof -
  let ?q = "np_pi / 2"
  have q: "?q = 884279719003555 / 562949953421312" by (simp add: np_pi_def)
  have q2: "\<bar>?q\<bar> \<le> 2" unfolding q by simp
  have "\<bar>cos ?q - (\<Sum>m<2 * 13. cos_coeff m * ?q ^ m)\<bar> \<le> \<bar>?q\<bar> ^ (2 * 13) / fact (2 * 13)"
    by (rule cos_taylor_bound)
  then have "\<bar>cos ?q - cos_poly 13 ?q\<bar> \<le> \<bar>?q\<bar> ^ 26 / fact 26"
    by (simp only: cos_sum_poly) simp
  moreover have "\<bar>?q\<bar> ^ 26 / fact 26 \<le> 2 ^ 26 / fact 26"
    by (intro divide_right_mono power_mono q2) simp_all
  ultimately have b: "\<bar>cos ?q - cos_poly 13 ?q\<bar> \<le> 2 ^ 26 / fact 26" by linarith
  show "6 / 10 ^ 17 \<le> cos ?q" using b cos_poly_13_np_pi(1) unfolding q by linarith
  show "cos ?q \<le> 7 / 10 ^ 17" using b cos_poly_13_np_pi(2) unfolding q by linarith
qed

lemma np_pi_range: "3 < np_pi" "np_pi < 4"
  by (simp_all add: np_pi_def)

lemma sin_half_np_pi: "0 < sin (np_pi / 2)" "sin (np_pi / 2) \<le> 1"
proof -
  have "0 < np_pi / 2" "np_pi / 2 < 2" using np_pi_range by simp_all
  then show "0 < sin (np_pi / 2)" by (rule sin_gt_zero_02)
  show "sin (np_pi / 2) \<le> 1" by simp
qed

lemma sin_np_pi: "0 < sin np_pi" "sin np_pi \<le> 2 / 10 ^ 16"
proof -
  have d: "sin np_pi = 2 * sin (np_pi / 2) * cos (np_pi / 2)"
    using sin_double [of "np_pi / 2"] by simp
  have c0: "0 < cos (np_pi / 2)" using cos_half_np_pi(1) by simp
  show "0 < sin np_pi" unfolding d using sin_half_np_pi(1) c0 by simp
  have "sin (np_pi / 2) * cos (np_pi / 2) \<le> 1 * (7 / 10 ^ 17)"
    using sin_half_np_pi cos_half_np_pi c0 by (intro mult_mono) simp_all
  then show "sin np_pi \<le> 2 / 10 ^ 16" unfolding d by simp
qed

lemma cos_np_pi: "cos np_pi \<le> - (999 / 1000)"
proof -
  have d: "cos np_pi = 2 * (cos (np_pi / 2))\<^sup>2 - 1"
    using cos_double_cos [of "np_pi / 2"] by simp
  have "0 \<le> cos (np_pi / 2)" using cos_half_np_pi(1) by simp
  then have "(cos (np_pi / 2))\<^sup>2 \<le> (7 / 10 ^ 17)\<^sup>2"
    using cos_half_np_pi(2) by (intro power_mono) simp_all
  moreover have "(7 / 10 ^ 17 :: real)\<^sup>2 \<le> 1 / 2000" by (simp add: power2_eq_square)
  ultimately have "(cos (np_pi / 2))\<^sup>2 \<le> 1 / 2000" by (rule order_trans)
  then show ?thesis unfolding d by simp
qed

section \<open>Paths and panels\<close>

lemma x_pts_Min: "Min (set x_pts) = x_pts ! 0"
proof (rule Min_eqI)
  show "finite (set x_pts)" by simp
  show "x_pts ! 0 \<in> set x_pts" by (rule nth_mem) (simp add: length_x_pts)
  fix y assume "y \<in> set x_pts"
  then show "x_pts ! 0 \<le> y" using x_pts_range by (auto simp: list_all_iff x_pts_first)
qed

lemma x_pts_Max: "Max (set x_pts) = last x_pts"
proof (rule Max_eqI)
  show "finite (set x_pts)" by simp
  have "x_pts \<noteq> []" using length_x_pts by auto
  then show "last x_pts \<in> set x_pts" by (rule last_in_set)
  fix y assume "y \<in> set x_pts"
  then show "y \<le> last x_pts" using x_pts_range by (auto simp: list_all_iff x_pts_last)
qed

lemma length_x_mapped_pts: "length x_mapped_pts = length x_pts"
  by (simp add: x_mapped_pts_def)

lemma y_new_pts_pointwise:
  assumes "base bt = Some b" and "eta et = Some e"
  shows "y_new_pts alpha bt et
         = Inr (map (\<lambda>x. b x + alpha * e ((x - x_pts ! 0) / (last x_pts - x_pts ! 0))) x_pts)"
proof -
  have "ew_add (map b x_pts) (map (\<lambda>v. alpha * v) (map e x_mapped_pts))
        = map (\<lambda>x. b x + alpha * e ((x - x_pts ! 0) / (last x_pts - x_pts ! 0))) x_pts"
    by (rule nth_equalityI) (simp_all add: ew_add_def x_mapped_pts_def)
  then show ?thesis using assms by (simp add: y_new_pts_def)
qed

lemma evaluate_functional_session:
  assumes "length y = length x_pts"
  shows "evaluate_functional x_pts y = Inr (spec_functional x_pts y)"
  by (rule evaluate_functional_spec_functional [OF _ assms x_pts_increasing])
     (simp add: length_x_pts)

lemma make_path_drawn:
  assumes "y_new_pts alpha bt et = Inr y" and "length y = length x_pts"
  shows "make_path alpha a1 a2 bt et
         = Inr (draw a1 (Curve x_pts y ''red'' 1),
                draw a2 (Marker alpha (spec_functional x_pts y) ''red''))"
  using assms(1) evaluate_functional_session [OF assms(2)]
  by (simp add: make_path_def Let_def)

lemma base_known:
  assumes "bt \<in> {''exact'', ''guess 1'', ''guess 2''}"
  shows "\<exists>b. base bt = Some b"
  using assms by (auto simp: base_def)

lemma eta_known:
  assumes "et \<in> {''sine'', ''parabola''}"
  shows "\<exists>e. eta et = Some e"
  using assms by (auto simp: eta_def)



lemma y_new_pts_known_tags:
  assumes "bt \<in> {''exact'', ''guess 1'', ''guess 2''}" and "et \<in> {''sine'', ''parabola''}"
  shows "\<exists>y. y_new_pts alpha bt et = Inr y \<and> length y = length x_pts"
proof -
  obtain b where b: "base bt = Some b" using base_known [OF assms(1)] by blast
  obtain e where e: "eta et = Some e" using eta_known [OF assms(2)] by blast
  show ?thesis using y_new_pts_pointwise [OF b e, of alpha] by simp
qed

text \<open>
  Claim C2. For each of the three base tags and the two deviation tags, the path that
  \<open>make_path\<close> computes and draws is, point by point, the base function at the grid
  point plus \<open>alpha\<close> times the deviation function at the normalised grid point
  \<open>(x - x_min) / (x_max - x_min)\<close>, where \<open>x_min\<close> and \<open>x_max\<close> are the least and the greatest
  grid point. Only the argument of the deviation function is normalised.
\<close>

theorem make_path_base_plus_scaled_deviation:
  assumes "bt \<in> {''exact'', ''guess 1'', ''guess 2''}" and "et \<in> {''sine'', ''parabola''}"
  shows "\<exists>b e y. base bt = Some b \<and> eta et = Some e
           \<and> y = map (\<lambda>x. b x + alpha * e ((x - Min (set x_pts))
                                              / (Max (set x_pts) - Min (set x_pts)))) x_pts
           \<and> y_new_pts alpha bt et = Inr y
           \<and> make_path alpha a1 a2 bt et
               = Inr (draw a1 (Curve x_pts y ''red'' 1),
                      draw a2 (Marker alpha (spec_functional x_pts y) ''red''))"
proof -
  obtain b where b: "base bt = Some b" using base_known [OF assms(1)] by blast
  obtain e where e: "eta et = Some e" using eta_known [OF assms(2)] by blast
  define y where "y = map (\<lambda>x. b x + alpha * e ((x - Min (set x_pts))
                                              / (Max (set x_pts) - Min (set x_pts)))) x_pts"
  have yn: "y_new_pts alpha bt et = Inr y"
    unfolding y_def x_pts_Min x_pts_Max by (rule y_new_pts_pointwise [OF b e])
  have "length y = length x_pts" by (simp add: y_def)
  then have "make_path alpha a1 a2 bt et
               = Inr (draw a1 (Curve x_pts y ''red'' 1),
                      draw a2 (Marker alpha (spec_functional x_pts y) ''red''))"
    by (rule make_path_drawn [OF yn])
  with b e yn y_def show ?thesis by blast
qed


theorem make_path_base_plus_scaled_deviation_witness:
  "''guess 2'' \<in> {''exact'', ''guess 1'', ''guess 2''} \<and> ''parabola'' \<in> {''sine'', ''parabola''}
   \<and> y_new_pts (1 / 2) ''guess 2'' ''parabola''
       = Inr (map (\<lambda>x. x ^ 3 + 1 / 2 * (4 * ((x - 0) / (999 / 1000 - 0))
                                            * (1 - (x - 0) / (999 / 1000 - 0)))) x_pts)"
  using make_path_base_plus_scaled_deviation
          [of "''guess 2''" "''parabola''" "1 / 2" blank_axes blank_axes]
  by (auto simp: base_def eta_def x_pts_Min x_pts_Max x_pts_first x_pts_last)

lemma length_ref_pts: "length ref_pts = 1000"
  by (simp add: ref_pts_def length_x_pts)

lemma length_sine_pts: "length sine_pts = 1000"
  by (simp add: sine_pts_def x_mapped_pts_def length_x_pts)

lemma nth_x_mapped_pts: "i < 1000 \<Longrightarrow> x_mapped_pts ! i = real i / 999"
  by (simp add: x_mapped_pts_def length_x_pts nth_x_pts x_pts_first x_pts_last)

lemma y_new_pts_exact_sine:
  "y_new_pts alpha ''exact'' ''sine''
   = Inr (ew_add ref_pts (map (\<lambda>v. alpha * v) sine_pts))"
  by (simp add: y_new_pts_def base_def eta_def ref_pts_def sine_pts_def)

lemma nth_exact_sine:
  assumes "k < length x_pts"
  shows "ew_add ref_pts (map (\<lambda>v. alpha * v) sine_pts) ! k = ref_pts ! k + alpha * sine_pts ! k"
  using assms by (simp add: ew_add_def length_ref_pts length_sine_pts length_x_pts)





text \<open>
  Claim C8. With a base tag other than the three known ones, or a deviation tag other
  than the two known ones, \<open>make_path\<close> raises \<open>UnboundLocalError\<close> (for \<open>base\<close> when
  the base tag is unknown, else for \<open>eta\<close>) before anything is computed or drawn.
\<close>

theorem make_path_unknown_tag_raises:
  assumes "bt \<notin> {''exact'', ''guess 1'', ''guess 2''} \<or> et \<notin> {''sine'', ''parabola''}"
  shows "y_new_pts alpha bt et
           = Inl (UnboundLocalError
                    (if bt \<notin> {''exact'', ''guess 1'', ''guess 2''} then ''base'' else ''eta''))
         \<and> make_path alpha a1 a2 bt et
           = Inl (UnboundLocalError
                    (if bt \<notin> {''exact'', ''guess 1'', ''guess 2''} then ''base'' else ''eta''))"
proof (cases "bt \<in> {''exact'', ''guess 1'', ''guess 2''}")
  case False
  then have "base bt = None" by (simp add: base_def)
  then show ?thesis using False by (simp add: make_path_def y_new_pts_def)
next
  case True
  then obtain b where b: "base bt = Some b" using base_known by blast
  from True assms have "et \<notin> {''sine'', ''parabola''}" by blast
  then have "eta et = None" by (simp add: eta_def)
  then show ?thesis using True b by (simp add: make_path_def y_new_pts_def)
qed

theorem make_path_unknown_tag_raises_witness:
  "''guess 3'' \<notin> {''exact'', ''guess 1'', ''guess 2''}
   \<and> make_path 0 blank_axes blank_axes ''guess 3'' ''sine'' = Inl (UnboundLocalError ''base'')
   \<and> ''cosine'' \<notin> {''sine'', ''parabola''}
   \<and> make_path 0 blank_axes blank_axes ''exact'' ''cosine'' = Inl (UnboundLocalError ''eta'')"
  using make_path_unknown_tag_raises [of "''guess 3''" "''sine''" 0 blank_axes blank_axes]
    make_path_unknown_tag_raises [of "''exact''" "''cosine''" 0 blank_axes blank_axes]
  by simp

lemma y_new_pts_exact_zero:
  assumes "eta et = Some e"
  shows "y_new_pts 0 ''exact'' et = Inr (map y_star x_pts)"
proof -
  have "base ''exact'' = Some (\<lambda>x. y_star x)" by (simp add: base_def)
  from y_new_pts_pointwise [OF this assms, of 0] show ?thesis by simp
qed

lemma reference_value:
  "evaluate_functional x_pts (map y_star x_pts) = Inr (spec_functional x_pts (map y_star x_pts))"
  by (rule evaluate_functional_session) simp

lemma setup_figure_drawn:
  "setup_figure fg
   = Inr \<lparr>ax1 = (ax1 fg)\<lparr>title := ''Show paths'', xlabel := ''x'', ylabel := ''y(x)'',
                         artists := artists (ax1 fg) @ [Curve x_pts (map y_star x_pts) ''black'' 2]\<rparr>,
          ax2 = (ax2 fg)\<lparr>title := ''Evaluate functional'', xlabel := ''$'' @ CHR 0x5C # ''alpha$'',
                         ylabel := ''functional'', xlim := Some (- 0.4, 0.4), ylim := Some (1.5, 3),
                         artists := artists (ax2 fg)
                           @ [HLine (spec_functional x_pts (map y_star x_pts)) ''black'' 0.3]\<rparr>\<rparr>"
  by (simp add: setup_figure_def Let_def reference_value draw_def)

text \<open>
  Claim C5. With the base tag \<open>exact\<close> and \<open>alpha = 0\<close> the path of \<open>make_path\<close> is
  \<open>y_star\<close> on the grid, for either deviation tag, and the functional value of the
  marker that \<open>make_path\<close> draws is the value at which \<open>setup_figure\<close>, and so
  \<open>reset_graph\<close>, draws the horizontal line.
\<close>

theorem exact_zero_scale_is_baseline:
  "y_new_pts 0 ''exact'' ''sine'' = Inr (map y_star x_pts)
   \<and> y_new_pts 0 ''exact'' ''parabola'' = Inr (map y_star x_pts)
   \<and> (\<exists>v fg' fg''.
         evaluate_functional x_pts (map y_star x_pts) = Inr v
         \<and> make_path 0 a1 a2 ''exact'' ''sine''
             = Inr (draw a1 (Curve x_pts (map y_star x_pts) ''red'' 1), draw a2 (Marker 0 v ''red''))
         \<and> make_path 0 a1 a2 ''exact'' ''parabola''
             = Inr (draw a1 (Curve x_pts (map y_star x_pts) ''red'' 1), draw a2 (Marker 0 v ''red''))
         \<and> setup_figure fg = Inr fg'
         \<and> artists (ax2 fg') = artists (ax2 fg) @ [HLine v ''black'' 0.3]
         \<and> reset_graph fg = Inr fg''
         \<and> artists (ax2 fg'') = [HLine v ''black'' 0.3])"
proof -
  have sine: "y_new_pts 0 ''exact'' ''sine'' = Inr (map y_star x_pts)"
    by (rule y_new_pts_exact_zero [of _ "\<lambda>x. sin (np_pi * x)"]) (simp add: eta_def)
  have para: "y_new_pts 0 ''exact'' ''parabola'' = Inr (map y_star x_pts)"
    by (rule y_new_pts_exact_zero [of _ "\<lambda>x. 4 * x * (1 - x)"]) (simp add: eta_def)
  have len: "length (map y_star x_pts) = length x_pts" by simp
  show ?thesis
    using sine para reference_value make_path_drawn [OF sine len] make_path_drawn [OF para len]
    by (simp add: setup_figure_drawn reset_graph_def clear_def blank_axes_def)
qed

text \<open>
  Against claim C6 as it is worded: \<open>make_path\<close> is not free of side effects. Called
  on two blank axes it leaves a curve on the first and a marker on the second.
\<close>

theorem make_path_draws_on_its_axes:
  "make_path 0 blank_axes blank_axes ''exact'' ''sine''
     = Inr (draw blank_axes (Curve x_pts (map y_star x_pts) ''red'' 1),
            draw blank_axes (Marker 0 (spec_functional x_pts (map y_star x_pts)) ''red''))
   \<and> draw blank_axes (Curve x_pts (map y_star x_pts) ''red'' 1) \<noteq> blank_axes
   \<and> draw blank_axes (Marker 0 (spec_functional x_pts (map y_star x_pts)) ''red'') \<noteq> blank_axes
   \<and> make_path 0 blank_axes blank_axes ''exact'' ''sine'' \<noteq> Inr (blank_axes, blank_axes)"
proof -
  have sine: "y_new_pts 0 ''exact'' ''sine'' = Inr (map y_star x_pts)"
    by (rule y_new_pts_exact_zero [of _ "\<lambda>x. sin (np_pi * x)"]) (simp add: eta_def)
  have len: "length (map y_star x_pts) = length x_pts" by simp
  have ne: "draw blank_axes a \<noteq> blank_axes" for a
  proof
    assume "draw blank_axes a = blank_axes"
    then have "artists (draw blank_axes a) = artists blank_axes" by simp
    then show False by (simp add: draw_def blank_axes_def)
  qed
  show ?thesis using make_path_drawn [OF sine len] ne by simp
qed

text \<open>
  Claim C6, amended. For known tags the path and the functional value that \<open>make_path\<close>
  computes depend on \<open>alpha\<close> and the two tags only, not on the axes it is given. The
  call appends that one curve to the first axes and that one marker to the second and
  changes nothing else on them; a second call with the same arguments appends the same
  curve and the same marker once more.
\<close>

theorem make_path_appends_same_artists:
  assumes "bt \<in> {''exact'', ''guess 1'', ''guess 2''}" and "et \<in> {''sine'', ''parabola''}"
  shows "\<exists>y v. y_new_pts alpha bt et = Inr y \<and> evaluate_functional x_pts y = Inr v
           \<and> (\<forall>b1 b2. make_path alpha b1 b2 bt et
                         = Inr (b1\<lparr>artists := artists b1 @ [Curve x_pts y ''red'' 1]\<rparr>,
                                b2\<lparr>artists := artists b2 @ [Marker alpha v ''red'']\<rparr>))
           \<and> (\<forall>b1 b2. make_path alpha (b1\<lparr>artists := artists b1 @ [Curve x_pts y ''red'' 1]\<rparr>)
                                     (b2\<lparr>artists := artists b2 @ [Marker alpha v ''red'']\<rparr>) bt et
                      = Inr (b1\<lparr>artists := artists b1 @ [Curve x_pts y ''red'' 1,
                                                          Curve x_pts y ''red'' 1]\<rparr>,
                             b2\<lparr>artists := artists b2 @ [Marker alpha v ''red'',
                                                          Marker alpha v ''red'']\<rparr>))"
proof -
  obtain y where yn: "y_new_pts alpha bt et = Inr y" and len: "length y = length x_pts"
    using y_new_pts_known_tags [OF assms, of alpha] by blast
  define v where "v = spec_functional x_pts y"
  have ev: "evaluate_functional x_pts y = Inr v"
    unfolding v_def by (rule evaluate_functional_session [OF len])
  have mp: "make_path alpha b1 b2 bt et
              = Inr (b1\<lparr>artists := artists b1 @ [Curve x_pts y ''red'' 1]\<rparr>,
                     b2\<lparr>artists := artists b2 @ [Marker alpha v ''red'']\<rparr>)"
    for b1 b2
    unfolding v_def make_path_drawn [OF yn len] draw_def ..
  have twice: "make_path alpha (b1\<lparr>artists := artists b1 @ [Curve x_pts y ''red'' 1]\<rparr>)
                                     (b2\<lparr>artists := artists b2 @ [Marker alpha v ''red'']\<rparr>) bt et
                      = Inr (b1\<lparr>artists := artists b1 @ [Curve x_pts y ''red'' 1,
                                                          Curve x_pts y ''red'' 1]\<rparr>,
                             b2\<lparr>artists := artists b2 @ [Marker alpha v ''red'',
                                                          Marker alpha v ''red'']\<rparr>)"
    for b1 b2
    unfolding mp by simp
  have "y_new_pts alpha bt et = Inr y \<and> evaluate_functional x_pts y = Inr v
           \<and> (\<forall>b1 b2. make_path alpha b1 b2 bt et
                         = Inr (b1\<lparr>artists := artists b1 @ [Curve x_pts y ''red'' 1]\<rparr>,
                                b2\<lparr>artists := artists b2 @ [Marker alpha v ''red'']\<rparr>))
           \<and> (\<forall>b1 b2. make_path alpha (b1\<lparr>artists := artists b1 @ [Curve x_pts y ''red'' 1]\<rparr>)
                                     (b2\<lparr>artists := artists b2 @ [Marker alpha v ''red'']\<rparr>) bt et
                      = Inr (b1\<lparr>artists := artists b1 @ [Curve x_pts y ''red'' 1,
                                                          Curve x_pts y ''red'' 1]\<rparr>,
                             b2\<lparr>artists := artists b2 @ [Marker alpha v ''red'',
                                                          Marker alpha v ''red'']\<rparr>))"
    using yn ev mp twice by (intro conjI allI)
  then show ?thesis by (intro exI)
qed

theorem make_path_appends_same_artists_witness:
  "''exact'' \<in> {''exact'', ''guess 1'', ''guess 2''} \<and> ''sine'' \<in> {''sine'', ''parabola''}
   \<and> (\<exists>y v. y_new_pts 0 ''exact'' ''sine'' = Inr y \<and> evaluate_functional x_pts y = Inr v
          \<and> make_path 0 blank_axes blank_axes ''exact'' ''sine''
              = Inr (blank_axes\<lparr>artists := [Curve x_pts y ''red'' 1]\<rparr>,
                     blank_axes\<lparr>artists := [Marker 0 v ''red'']\<rparr>))"
proof -
  have tags: "''exact'' \<in> {''exact'', ''guess 1'', ''guess 2''}" "''sine'' \<in> {''sine'', ''parabola''}"
    by simp_all
  from make_path_appends_same_artists [OF tags, of 0]
  obtain y v where "y_new_pts 0 ''exact'' ''sine'' = Inr y" "evaluate_functional x_pts y = Inr v"
    and mp: "\<forall>b1 b2. make_path 0 b1 b2 ''exact'' ''sine''
                         = Inr (b1\<lparr>artists := artists b1 @ [Curve x_pts y ''red'' 1]\<rparr>,
                                b2\<lparr>artists := artists b2 @ [Marker 0 v ''red'']\<rparr>)"
    by blast
  moreover have "make_path 0 blank_axes blank_axes ''exact'' ''sine''
              = Inr (blank_axes\<lparr>artists := [Curve x_pts y ''red'' 1]\<rparr>,
                     blank_axes\<lparr>artists := [Marker 0 v ''red'']\<rparr>)"
    using mp [rule_format, of blank_axes blank_axes] by (simp add: blank_axes_def)
  ultimately show ?thesis using tags by blast
qed

text \<open>
  Claim C7. Whatever the two panels hold, \<open>reset_graph\<close> leaves them holding what
  \<open>setup_figure\<close> draws on blank axes and nothing else: the reference curve on the
  first panel, and on the second the horizontal line at the functional value of the
  reference path.
\<close>

theorem reset_graph_restores_reference_display:
  "reset_graph fg
     = Inr \<lparr>ax1 = \<lparr>title = ''Show paths'', xlabel = ''x'', ylabel = ''y(x)'',
                    xlim = None, ylim = None,
                    artists = [Curve x_pts (map y_star x_pts) ''black'' 2]\<rparr>,
            ax2 = \<lparr>title = ''Evaluate functional'', xlabel = ''$'' @ CHR 0x5C # ''alpha$'',
                    ylabel = ''functional'', xlim = Some (- 0.4, 0.4), ylim = Some (1.5, 3),
                    artists = [HLine (spec_functional x_pts (map y_star x_pts)) ''black'' 0.3]\<rparr>\<rparr>
   \<and> evaluate_functional x_pts (map y_star x_pts)
       = Inr (spec_functional x_pts (map y_star x_pts))
   \<and> reset_graph fg = setup_figure \<lparr>ax1 = blank_axes, ax2 = blank_axes\<rparr>"
  by (simp add: reset_graph_def clear_def setup_figure_drawn reference_value blank_axes_def)

section \<open>The scan over \<open>alpha\<close>\<close>

lemma spec_derivative_linear:
  assumes n: "2 \<le> length xs" and i: "i < length xs"
    and c: "\<And>k. k < length xs \<Longrightarrow> c ! k = a ! k + alpha * b ! k"
  shows "spec_derivative xs c i = spec_derivative xs a i + alpha * spec_derivative xs b i"
proof -
  have lin: "(p + alpha * q) / d = p / d + alpha * (q / d)" for p q d :: real
    by (simp add: add_divide_distrib)
  consider "i = 0" | "i = length xs - 1" "0 < i" | "0 < i" "i < length xs - 1"
    using i by linarith
  then show ?thesis
  proof cases
    case 1
    have "0 < length xs" "1 < length xs" using n by auto
    then have "c ! 0 = a ! 0 + alpha * b ! 0" "c ! 1 = a ! 1 + alpha * b ! 1"
      using c by blast+
    then have "c ! 1 - c ! 0 = (a ! 1 - a ! 0) + alpha * (b ! 1 - b ! 0)"
      by (simp add: algebra_simps)
    then show ?thesis using 1 lin by (simp add: spec_derivative_first)
  next
    case 2
    have "length xs - 2 < length xs" "length xs - 1 < length xs" using n by auto
    then have "c ! (length xs - 2) = a ! (length xs - 2) + alpha * b ! (length xs - 2)"
      "c ! (length xs - 1) = a ! (length xs - 1) + alpha * b ! (length xs - 1)"
      using c by blast+
    then have "c ! (length xs - 1) - c ! (length xs - 2)
          = (a ! (length xs - 1) - a ! (length xs - 2))
            + alpha * (b ! (length xs - 1) - b ! (length xs - 2))"
      by (simp add: algebra_simps)
    then show ?thesis unfolding 2(1) spec_derivative_last [OF n] by (simp only: lin)
  next
    case 3
    let ?hs = "xs ! i - xs ! (i - 1)" and ?hd = "xs ! (i + 1) - xs ! i"
    have k: "i - 1 < length xs" "i + 1 < length xs" using 3 by auto
    have "?hs\<^sup>2 * c ! (i + 1) + (?hd\<^sup>2 - ?hs\<^sup>2) * c ! i - ?hd\<^sup>2 * c ! (i - 1)
          = (?hs\<^sup>2 * a ! (i + 1) + (?hd\<^sup>2 - ?hs\<^sup>2) * a ! i - ?hd\<^sup>2 * a ! (i - 1))
            + alpha * (?hs\<^sup>2 * b ! (i + 1) + (?hd\<^sup>2 - ?hs\<^sup>2) * b ! i - ?hd\<^sup>2 * b ! (i - 1))"
      unfolding c [OF k(1)] c [OF k(2)] c [OF i] by (simp add: algebra_simps)
    then show ?thesis
      unfolding spec_derivative_interior [OF 3] by (simp only: lin)
  qed
qed

lemma spec_integrand_quadratic:
  assumes n: "2 \<le> length xs" and i: "i < length xs"
    and c: "\<And>k. k < length xs \<Longrightarrow> c ! k = a ! k + alpha * b ! k"
  shows "spec_integrand xs c i
         = spec_integrand xs a i + alpha * cross_integrand xs a b i
           + alpha\<^sup>2 * spec_integrand xs b i"
proof -
  have d: "spec_derivative xs c i = spec_derivative xs a i + alpha * spec_derivative xs b i"
    using n i c by (rule spec_derivative_linear)
  have ci: "c ! i = a ! i + alpha * b ! i" using i by (rule c)
  show ?thesis
    unfolding spec_integrand_def cross_integrand_def d ci
    by (simp add: power2_eq_square algebra_simps)
qed

lemma panel_quadratic:
  fixes w :: real
  shows "w * ((p + alpha * g + alpha\<^sup>2 * q) + (p' + alpha * g' + alpha\<^sup>2 * q')) / 2
         = w * (p + p') / 2 + (alpha * (w * (g + g') / 2) + alpha\<^sup>2 * (w * (q + q') / 2))"
  by (simp add: field_simps)

lemma spec_functional_quadratic:
  assumes n: "2 \<le> length xs"
    and c: "\<And>k. k < length xs \<Longrightarrow> c ! k = a ! k + alpha * b ! k"
  shows "spec_functional xs c
         = spec_functional xs a + alpha * cross_functional xs a b
           + alpha\<^sup>2 * spec_functional xs b"
proof -
  let ?w = "\<lambda>i. xs ! (i + 1) - xs ! i"
  have "map (\<lambda>i. ?w i * (spec_integrand xs c i + spec_integrand xs c (i + 1)) / 2)
            [0..<length xs - 1]
        = map (\<lambda>i. ?w i * (spec_integrand xs a i + spec_integrand xs a (i + 1)) / 2
                   + (alpha * (?w i * (cross_integrand xs a b i + cross_integrand xs a b (i + 1)) / 2)
                      + alpha\<^sup>2 * (?w i * (spec_integrand xs b i + spec_integrand xs b (i + 1)) / 2)))
            [0..<length xs - 1]"
  proof (rule map_cong [OF refl])
    fix i assume "i \<in> set [0..<length xs - 1]"
    then have i: "i < length xs" "i + 1 < length xs" by auto
    have q1: "spec_integrand xs c i
         = spec_integrand xs a i + alpha * cross_integrand xs a b i
           + alpha\<^sup>2 * spec_integrand xs b i"
      using n i(1) c by (rule spec_integrand_quadratic)
    have q2: "spec_integrand xs c (i + 1)
         = spec_integrand xs a (i + 1) + alpha * cross_integrand xs a b (i + 1)
           + alpha\<^sup>2 * spec_integrand xs b (i + 1)"
      using n i(2) c by (rule spec_integrand_quadratic)
    show "?w i * (spec_integrand xs c i + spec_integrand xs c (i + 1)) / 2
          = ?w i * (spec_integrand xs a i + spec_integrand xs a (i + 1)) / 2
            + (alpha * (?w i * (cross_integrand xs a b i + cross_integrand xs a b (i + 1)) / 2)
               + alpha\<^sup>2 * (?w i * (spec_integrand xs b i + spec_integrand xs b (i + 1)) / 2))"
      unfolding q1 q2 by (rule panel_quadratic)
  qed
  then show ?thesis
    unfolding spec_functional_def cross_functional_def
    by (simp only: sum_list_addf sum_list_const_mult)
qed

lemma nth_ref_pts: "i < 1000 \<Longrightarrow> ref_pts ! i = sinh (real i / 1000) / sinh 1"
  by (simp add: ref_pts_def length_x_pts nth_x_pts y_star_def)


lemma nth_sine_pts: "i < 1000 \<Longrightarrow> sine_pts ! i = sin (real i * (np_pi / 999))"
  by (simp add: sine_pts_def length_x_mapped_pts length_x_pts nth_x_mapped_pts mult.commute)

lemma session_derivative:
  assumes "i < 1000"
  shows "spec_derivative x_pts y i =
           (if i = 0 then (y ! 1 - y ! 0) / (1 / 1000)
            else if i = 999 then (y ! 999 - y ! 998) / (1 / 1000)
            else (y ! (i + 1) - y ! (i - 1)) / (2 * (1 / 1000)))"
proof -
  consider "i = 0" | "i = 999" | "0 < i" "i < 999" using assms by linarith
  then show ?thesis
  proof cases
    case 1
    then show ?thesis by (simp add: spec_derivative_first nth_x_pts)
  next
    case 2
    have "spec_derivative x_pts y (length x_pts - 1)
          = (y ! (length x_pts - 1) - y ! (length x_pts - 2))
            / (x_pts ! (length x_pts - 1) - x_pts ! (length x_pts - 2))"
      by (rule spec_derivative_last) (simp add: length_x_pts)
    then show ?thesis using 2 by (simp add: length_x_pts nth_x_pts)
  next
    case 3
    have i: "0 < i" "i < length x_pts - 1" using 3 by (simp_all add: length_x_pts)
    have hs: "x_pts ! i - x_pts ! (i - 1) = 1 / 1000"
      using 3 by (simp add: nth_x_pts of_nat_diff field_simps)
    have hd: "x_pts ! (i + 1) - x_pts ! i = 1 / 1000"
      using 3 by (simp add: nth_x_pts field_simps)
    have "spec_derivative x_pts y i = (y ! (i + 1) - y ! (i - 1)) / (2 * (1 / 1000))"
      unfolding spec_derivative_interior [OF i] hs hd
      by (rule three_point_uniform) simp
    then show ?thesis using 3 by simp
  qed
qed

lemma trapezoid_rearrange:
  fixes g :: "nat \<Rightarrow> real"
  shows "sum_list (map (\<lambda>i. w * (g i + g (i + 1)) / 2) [0..<Suc m])
         = w * (g 0 + g (Suc m)) / 2 + (\<Sum>j<m. w * g (Suc j))"
proof (induction m)
  case 0
  show ?case by simp
next
  case (Suc m)
  have "sum_list (map (\<lambda>i. w * (g i + g (i + 1)) / 2) [0..<Suc (Suc m)])
        = sum_list (map (\<lambda>i. w * (g i + g (i + 1)) / 2) [0..<Suc m])
          + w * (g (Suc m) + g (Suc (Suc m))) / 2"
    by simp
  also have "\<dots> = w * (g 0 + g (Suc m)) / 2 + (\<Sum>j<m. w * g (Suc j))
                   + w * (g (Suc m) + g (Suc (Suc m))) / 2"
    by (simp only: Suc.IH)
  also have "\<dots> = w * (g 0 + g (Suc (Suc m))) / 2 + (\<Sum>j<Suc m. w * g (Suc j))"
    by (simp add: field_simps)
  finally show ?case .
qed

lemma interior_identity:
  fixes s c e :: "nat \<Rightarrow> real" and h sh :: real
  assumes h: "h \<noteq> 0"
    and ds: "s (j + 2) - s j = 2 * sh * c (j + 1)"
    and dc: "c (j + 2) - c j = 2 * sh * s (j + 1)"
  shows "h * (2 * ((s (j + 2) - s j) / (2 * h)) * ((e (j + 2) - e j) / (2 * h))
              + s (j + 1) * ((e (j + 2) - e j) / (2 * h))
              + e (j + 1) * ((s (j + 2) - s j) / (2 * h))
              + 2 * s (j + 1) * e (j + 1))
         = (2 * h - 2 * sh\<^sup>2 / h) * (s (j + 1) * e (j + 1))
           + (sh / h) * ((c (j + 1) * e (j + 2) + c (j + 2) * e (j + 1))
                         - (c j * e (j + 1) + c (j + 1) * e j))
           + ((s (j + 1) * e (j + 2) + s (j + 2) * e (j + 1))
              - (s j * e (j + 1) + s (j + 1) * e j)) / 2"
proof -
  have s2: "s (j + 2) = s j + 2 * sh * c (j + 1)" using ds by simp
  have c2: "c (j + 2) = c j + 2 * sh * s (j + 1)" using dc by simp
  show ?thesis
    unfolding s2 c2 using h by (simp add: field_simps power2_eq_square)
qed

lemma ref_pts_seq: "i < 1000 \<Longrightarrow> ref_pts ! i = sinh_seq i"
  by (simp add: nth_ref_pts sinh_seq_def)

lemma sine_pts_seq: "i < 1000 \<Longrightarrow> sine_pts ! i = sine_seq i"
  by (simp add: nth_sine_pts sine_seq_def)

lemma sinh_seq_step: "sinh_seq (j + 2) - sinh_seq j = 2 * sinh (1 / 1000) * cosh_seq (j + 1)"
proof -
  let ?a = "real (j + 1) / 1000" and ?h = "1 / 1000 :: real"
  have p: "real (j + 2) / 1000 = ?a + ?h" and m: "real j / 1000 = ?a - ?h"
    by (simp_all add: field_simps)
  have "sinh (?a + ?h) - sinh (?a - ?h) = 2 * sinh ?h * cosh ?a"
    by (simp add: sinh_add sinh_diff)
  then show ?thesis
    unfolding sinh_seq_def cosh_seq_def p m
    by (simp add: diff_divide_distrib [symmetric])
qed

lemma cosh_seq_step: "cosh_seq (j + 2) - cosh_seq j = 2 * sinh (1 / 1000) * sinh_seq (j + 1)"
proof -
  let ?a = "real (j + 1) / 1000" and ?h = "1 / 1000 :: real"
  have p: "real (j + 2) / 1000 = ?a + ?h" and m: "real j / 1000 = ?a - ?h"
    by (simp_all add: field_simps)
  have "cosh (?a + ?h) - cosh (?a - ?h) = 2 * sinh ?h * sinh ?a"
    by (simp add: cosh_add cosh_diff)
  then show ?thesis
    unfolding sinh_seq_def cosh_seq_def p m
    by (simp add: diff_divide_distrib [symmetric])
qed

lemma cross_integrand_interior:
  assumes "j < 998"
  shows "cross_integrand x_pts ref_pts sine_pts (Suc j)
         = 2 * ((sinh_seq (j + 2) - sinh_seq j) / (2 * (1 / 1000)))
             * ((sine_seq (j + 2) - sine_seq j) / (2 * (1 / 1000)))
           + sinh_seq (j + 1) * ((sine_seq (j + 2) - sine_seq j) / (2 * (1 / 1000)))
           + sine_seq (j + 1) * ((sinh_seq (j + 2) - sinh_seq j) / (2 * (1 / 1000)))
           + 2 * sinh_seq (j + 1) * sine_seq (j + 1)"
proof -
  have i: "Suc j < 1000" "Suc j \<noteq> 0" "Suc j \<noteq> 999" using assms by simp_all
  have idx: "j < 1000" "Suc j < 1000" "Suc (Suc j) < 1000" using assms by simp_all
  have d: "spec_derivative x_pts y (Suc j) = (y ! (j + 2) - y ! j) / (2 * (1 / 1000))" for y
    using session_derivative [OF i(1), of y] i(2,3) by simp
  show ?thesis
    unfolding cross_integrand_def d
    using idx by (simp add: ref_pts_seq sine_pts_seq)
qed

lemma cross_integrand_first:
  "cross_integrand x_pts ref_pts sine_pts 0
   = 2 * (sinh_seq 1 / (1 / 1000)) * (sine_seq 1 / (1 / 1000))"
proof -
  have d: "spec_derivative x_pts y 0 = (y ! 1 - y ! 0) / (1 / 1000)" for y
    using session_derivative [of 0 y] by simp
  have z: "sinh_seq 0 = 0" "sine_seq 0 = 0" by (simp_all add: sinh_seq_def sine_seq_def)
  show ?thesis
    unfolding cross_integrand_def d
    by (simp add: ref_pts_seq sine_pts_seq z)
qed

lemma cross_integrand_last:
  "cross_integrand x_pts ref_pts sine_pts 999
   = 2 * ((sinh_seq 999 - sinh_seq 998) / (1 / 1000))
       * ((sine_seq 999 - sine_seq 998) / (1 / 1000))
     + sinh_seq 999 * ((sine_seq 999 - sine_seq 998) / (1 / 1000))
     + sine_seq 999 * ((sinh_seq 999 - sinh_seq 998) / (1 / 1000))
     + 2 * sinh_seq 999 * sine_seq 999"
proof -
  have d: "spec_derivative x_pts y 999 = (y ! 999 - y ! 998) / (1 / 1000)" for y
    using session_derivative [of 999 y] by simp
  show ?thesis
    unfolding cross_integrand_def d
    by (simp add: ref_pts_seq sine_pts_seq)
qed

lemma cross_functional_trapezoid:
  "cross_functional x_pts ref_pts sine_pts
   = (1 / 1000) * (cross_integrand x_pts ref_pts sine_pts 0
                   + cross_integrand x_pts ref_pts sine_pts 999) / 2
     + (\<Sum>j<998. (1 / 1000) * cross_integrand x_pts ref_pts sine_pts (Suc j))"
proof -
  let ?g = "cross_integrand x_pts ref_pts sine_pts"
  have "map (\<lambda>i. (x_pts ! (i + 1) - x_pts ! i) * (?g i + ?g (i + 1)) / 2) [0..<length x_pts - 1]
        = map (\<lambda>i. (1 / 1000) * (?g i + ?g (i + 1)) / 2) [0..<Suc 998]"
  proof (rule map_cong)
    show "[0..<length x_pts - 1] = [0..<Suc 998]" by (simp add: length_x_pts)
    fix i assume "i \<in> set [0..<Suc 998]"
    then have "i < 999" by simp
    then have "x_pts ! (i + 1) - x_pts ! i = 1 / 1000"
      by (simp add: nth_x_pts field_simps)
    then show "(x_pts ! (i + 1) - x_pts ! i) * (?g i + ?g (i + 1)) / 2
               = (1 / 1000) * (?g i + ?g (i + 1)) / 2"
      by (simp only:)
  qed
  then have "cross_functional x_pts ref_pts sine_pts
             = sum_list (map (\<lambda>i. (1 / 1000) * (?g i + ?g (i + 1)) / 2) [0..<Suc 998])"
    by (simp only: cross_functional_def)
  also have "\<dots> = (1 / 1000) * (?g 0 + ?g (Suc 998)) / 2 + (\<Sum>j<998. (1 / 1000) * ?g (Suc j))"
    by (rule trapezoid_rearrange)
  finally show ?thesis by simp
qed

lemma cross_interior_sum:
  "(\<Sum>j<998. (1 / 1000) * cross_integrand x_pts ref_pts sine_pts (Suc j))
   = (2 * (1 / 1000) - 2 * (sinh (1 / 1000))\<^sup>2 / (1 / 1000))
       * (\<Sum>j<998. sinh_seq (Suc j) * sine_seq (Suc j))
     + (sinh (1 / 1000) / (1 / 1000))
         * ((cosh_seq 998 * sine_seq 999 + cosh_seq 999 * sine_seq 998)
            - (cosh_seq 0 * sine_seq 1 + cosh_seq 1 * sine_seq 0))
     + ((sinh_seq 998 * sine_seq 999 + sinh_seq 999 * sine_seq 998)
        - (sinh_seq 0 * sine_seq 1 + sinh_seq 1 * sine_seq 0)) / 2"
proof -
  let ?h = "1 / 1000 :: real"
  let ?sigma = "2 * ?h - 2 * (sinh ?h)\<^sup>2 / ?h"
  let ?V = "\<lambda>j. cosh_seq j * sine_seq (Suc j) + cosh_seq (Suc j) * sine_seq j"
  let ?U = "\<lambda>j. sinh_seq j * sine_seq (Suc j) + sinh_seq (Suc j) * sine_seq j"
  have step: "?h * cross_integrand x_pts ref_pts sine_pts (Suc j)
              = ?sigma * (sinh_seq (Suc j) * sine_seq (Suc j))
                + (sinh ?h / ?h) * (?V (Suc j) - ?V j) + (?U (Suc j) - ?U j) / 2"
    if "j < 998" for j
  proof -
    have "?h * cross_integrand x_pts ref_pts sine_pts (Suc j)
          = ?sigma * (sinh_seq (j + 1) * sine_seq (j + 1))
            + (sinh ?h / ?h) * ((cosh_seq (j + 1) * sine_seq (j + 2) + cosh_seq (j + 2) * sine_seq (j + 1))
                                - (cosh_seq j * sine_seq (j + 1) + cosh_seq (j + 1) * sine_seq j))
            + ((sinh_seq (j + 1) * sine_seq (j + 2) + sinh_seq (j + 2) * sine_seq (j + 1))
               - (sinh_seq j * sine_seq (j + 1) + sinh_seq (j + 1) * sine_seq j)) / 2"
      unfolding cross_integrand_interior [OF that]
      by (rule interior_identity [OF _ sinh_seq_step cosh_seq_step]) simp
    then show ?thesis by simp
  qed
  have "(\<Sum>j<998. ?h * cross_integrand x_pts ref_pts sine_pts (Suc j))
        = (\<Sum>j<998. ?sigma * (sinh_seq (Suc j) * sine_seq (Suc j))
                      + (sinh ?h / ?h) * (?V (Suc j) - ?V j) + (?U (Suc j) - ?U j) / 2)"
    by (rule sum.cong [OF refl]) (simp only: step lessThan_iff)
  also have "\<dots> = ?sigma * (\<Sum>j<998. sinh_seq (Suc j) * sine_seq (Suc j))
                   + (sinh ?h / ?h) * (\<Sum>j<998. ?V (Suc j) - ?V j)
                   + (\<Sum>j<998. ?U (Suc j) - ?U j) / 2"
    by (simp only: sum.distrib sum_distrib_left sum_divide_distrib)
  also have "(\<Sum>j<998. ?V (Suc j) - ?V j) = ?V 998 - ?V 0"
    by (rule sum_lessThan_telescope)
  also have "(\<Sum>j<998. ?U (Suc j) - ?U j) = ?U 998 - ?U 0"
    by (rule sum_lessThan_telescope)
  finally show ?thesis by simp
qed

lemma exp_small_bounds:
  "1001 / 1000 \<le> exp (1 / 1000 :: real)" "exp (1 / 1000 :: real) \<le> 1001001 / 1000000"
proof -
  have lo: "1 + 1 / 1000 \<le> exp (1 / 1000 :: real)" by (rule exp_ge_add_one_self)
  then show "1001 / 1000 \<le> exp (1 / 1000 :: real)" by simp
  have "exp (1 / 1000 :: real) \<le> 1 + 1 / 1000 + (1 / 1000)\<^sup>2" by (rule exp_bound) simp_all
  then show "exp (1 / 1000 :: real) \<le> 1001001 / 1000000" by (simp add: power2_eq_square)
qed

lemma exp_remainder:
  fixes x :: real
  assumes "\<bar>x\<bar> \<le> 1 / 1000"
  shows "\<exists>r. exp x = 1 + x + x\<^sup>2 / 2 + x ^ 3 / 6 + r \<and> 0 \<le> r \<and> r \<le> 1 / (2 * 10 ^ 13)"
proof -
  obtain t where t: "\<bar>t\<bar> \<le> \<bar>x\<bar>"
    and e: "exp x = (\<Sum>m<4. x ^ m / fact m) + exp t / fact 4 * x ^ 4"
    using Maclaurin_exp_le [of x 4] by blast
  define r where "r = exp t / fact 4 * x ^ 4"
  have s: "(\<Sum>m<4. x ^ m / fact m) = 1 + x + x\<^sup>2 / 2 + x ^ 3 / 6"
    by (simp add: numeral_eq_Suc)
  have "t \<le> 1 / 1000" using t assms by linarith
  then have "exp t \<le> exp (1 / 1000 :: real)" by simp
  then have et: "exp t \<le> 1001001 / 1000000" using exp_small_bounds(2) by linarith
  have "x ^ 4 = \<bar>x\<bar> ^ 4" by simp
  also have "\<dots> \<le> (1 / 1000) ^ 4" using assms by (intro power_mono) simp_all
  finally have x4: "x ^ 4 \<le> (1 / 1000) ^ 4" .
  have x0: "0 \<le> x ^ 4" by simp
  have "exp t * x ^ 4 \<le> (1001001 / 1000000) * (1 / 1000) ^ 4"
    using et x4 x0 by (intro mult_mono) simp_all
  then have "exp t * x ^ 4 / fact 4 \<le> (1001001 / 1000000) * (1 / 1000) ^ 4 / fact 4"
    by (intro divide_right_mono) simp_all
  also have "\<dots> \<le> 1 / (2 * 10 ^ 13)" by (simp add: fact_numeral power_divide)
  finally have hi: "r \<le> 1 / (2 * 10 ^ 13)" by (simp add: r_def)
  have lo: "0 \<le> r" using x0 by (simp add: r_def)
  have "exp x = 1 + x + x\<^sup>2 / 2 + x ^ 3 / 6 + r" using e s by (simp only: r_def)
  with lo hi show ?thesis by blast
qed

lemma sinh_small_bounds:
  "1 / 1000 + 166 / 10 ^ 12 \<le> sinh (1 / 1000 :: real)"
  "sinh (1 / 1000 :: real) \<le> 1 / 1000 + 167 / 10 ^ 12"
  and cosh_small_bounds:
  "1 + 1 / 2000000 \<le> cosh (1 / 1000 :: real)"
  "cosh (1 / 1000 :: real) \<le> 1 + 1 / 2000000 + 1 / 10 ^ 13"
proof -
  obtain r where r: "exp (1 / 1000 :: real)
      = 1 + 1 / 1000 + (1 / 1000)\<^sup>2 / 2 + (1 / 1000) ^ 3 / 6 + r"
    "0 \<le> r" "r \<le> 1 / (2 * 10 ^ 13)"
    using exp_remainder [of "1 / 1000"] by auto
  obtain r' where r': "exp (- (1 / 1000) :: real)
      = 1 + - (1 / 1000) + (- (1 / 1000))\<^sup>2 / 2 + (- (1 / 1000)) ^ 3 / 6 + r'"
    "0 \<le> r'" "r' \<le> 1 / (2 * 10 ^ 13)"
    using exp_remainder [of "- (1 / 1000)"] by auto
  have p: "exp (1 / 1000 :: real) = 6006003001 / 6000000000 + r"
    using r(1) by (simp add: power2_eq_square power3_eq_cube)
  have m: "exp (- (1 / 1000) :: real) = 5994002999 / 6000000000 + r'"
    using r'(1) by (simp add: power2_eq_square power3_eq_cube)
  have sh: "sinh (1 / 1000 :: real) = (6006003001 / 6000000000 + r - (5994002999 / 6000000000 + r')) / 2"
    unfolding sinh_field_def p m by (rule refl)
  have ch: "cosh (1 / 1000 :: real) = (6006003001 / 6000000000 + r + (5994002999 / 6000000000 + r')) / 2"
    unfolding cosh_field_def p m by (rule refl)
  show "1 / 1000 + 166 / 10 ^ 12 \<le> sinh (1 / 1000 :: real)"
    unfolding sh using r(2,3) r'(2,3) by simp
  show "sinh (1 / 1000 :: real) \<le> 1 / 1000 + 167 / 10 ^ 12"
    unfolding sh using r(2,3) r'(2,3) by simp
  show "1 + 1 / 2000000 \<le> cosh (1 / 1000 :: real)"
    unfolding ch using r(2,3) r'(2,3) by simp
  show "cosh (1 / 1000 :: real) \<le> 1 + 1 / 2000000 + 1 / 10 ^ 13"
    unfolding ch using r(2,3) r'(2,3) by simp
qed

lemma sigma_small:
  "- (67 / 10 ^ 11) \<le> 2 * (1 / 1000) - 2 * (sinh (1 / 1000 :: real))\<^sup>2 / (1 / 1000)"
  "2 * (1 / 1000) - 2 * (sinh (1 / 1000 :: real))\<^sup>2 / (1 / 1000) \<le> 0"
proof -
  define sh where "sh = sinh (1 / 1000 :: real)"
  have lo: "1 / 1000 + 166 / 10 ^ 12 \<le> sh" and hi: "sh \<le> 1 / 1000 + 167 / 10 ^ 12"
    using sinh_small_bounds by (simp_all add: sh_def)
  define q where "q = sh\<^sup>2"
  have "(1 / 1000 + 166 / 10 ^ 12)\<^sup>2 \<le> sh\<^sup>2" using lo by (intro power_mono) simp_all
  then have qlo: "1 / 1000000 \<le> q" by (simp add: q_def power2_eq_square)
  have "sh\<^sup>2 \<le> (1 / 1000 + 167 / 10 ^ 12)\<^sup>2" using lo hi by (intro power_mono) simp_all
  then have qhi: "q \<le> 1 / 1000000 + 335 / 10 ^ 15" by (simp add: q_def power2_eq_square)
  have e: "2 * (1 / 1000) - 2 * q / (1 / 1000) = 1 / 500 - 2000 * q" by simp
  have "- (67 / 10 ^ 11) \<le> 1 / 500 - 2000 * q" using qhi by simp
  then show "- (67 / 10 ^ 11) \<le> 2 * (1 / 1000) - 2 * (sinh (1 / 1000 :: real))\<^sup>2 / (1 / 1000)"
    unfolding sh_def [symmetric] q_def [symmetric] e .
  have "1 / 500 - 2000 * q \<le> 0" using qlo by simp
  then show "2 * (1 / 1000) - 2 * (sinh (1 / 1000 :: real))\<^sup>2 / (1 / 1000) \<le> 0"
    unfolding sh_def [symmetric] q_def [symmetric] e .
qed

lemma cosh_quotient_bounds:
  "1 / 2000 \<le> (cosh (1 / 1000 :: real) - 1) / (1 / 1000)"
  "(cosh (1 / 1000 :: real) - 1) / (1 / 1000) \<le> 1 / 2000 + 1 / 10 ^ 10"
  using cosh_small_bounds by simp_all

lemma sinh_seq_bounds: "i \<le> 1000 \<Longrightarrow> 0 \<le> sinh_seq i \<and> sinh_seq i \<le> 1"
proof -
  assume i: "i \<le> 1000"
  have pos: "0 < sinh (1 :: real)" by simp
  have "sinh (real i / 1000) \<le> sinh (1 :: real)" using i by simp
  then have "sinh (real i / 1000) / sinh (1 :: real) \<le> 1" using pos by simp
  moreover have "0 \<le> sinh (real i / 1000) / sinh (1 :: real)" using pos by simp
  ultimately show ?thesis by (simp add: sinh_seq_def)
qed

lemma cosh_seq_bounds: "i \<le> 1000 \<Longrightarrow> 0 \<le> cosh_seq i \<and> cosh_seq i \<le> 2"
proof -
  assume i: "i \<le> 1000"
  have pos: "0 < sinh (1 :: real)" by simp
  have e: "2 \<le> exp (1 :: real)" using exp_ge_add_one_self [of "1 :: real"] by simp
  have ep: "0 < exp (1 :: real)" by simp
  have "exp (1 :: real) * 2 \<le> exp 1 * exp 1" using e by (intro mult_left_mono) simp_all
  then have e2: "4 \<le> exp (1 :: real) * exp 1" using e by linarith
  have inv: "exp (- 1 :: real) * exp 1 = 1" by (simp add: exp_minus field_simps)
  have "(2 * sinh (1 :: real) - cosh 1) * exp 1 = (exp 1 * exp 1 - 3 * (exp (- 1) * exp 1)) / 2"
    by (simp add: sinh_field_def cosh_field_def field_simps)
  also have "\<dots> = (exp 1 * exp 1 - 3) / 2" by (simp only: inv) simp
  finally have "0 \<le> (2 * sinh (1 :: real) - cosh 1) * exp 1" using e2 by simp
  then have "0 \<le> 2 * sinh (1 :: real) - cosh 1"
    using ep by (simp add: zero_le_mult_iff)
  then have c1: "cosh (1 :: real) \<le> 2 * sinh 1" by simp
  have "real i / 1000 \<le> (1 :: real)" using i by simp
  then have "cosh (real i / 1000) \<le> cosh (1 :: real)" by (simp add: cosh_real_nonneg_le_iff)
  then have "cosh (real i / 1000) \<le> 2 * sinh (1 :: real)" using c1 by linarith
  then have "cosh (real i / 1000) / sinh (1 :: real) \<le> 2" using pos by (simp add: field_simps)
  moreover have "0 \<le> cosh (real i / 1000) / sinh (1 :: real)"
    using pos cosh_real_nonneg [of "real i / 1000"] by simp
  ultimately show ?thesis by (simp add: cosh_seq_def)
qed

lemma sinh_seq_999_lower: "997 / 1000 \<le> sinh_seq 999"
proof -
  define S where "S = sinh_seq 999"
  define C where "C = cosh_seq 999"
  define sh where "sh = sinh (1 / 1000 :: real)"
  define ch where "ch = cosh (1 / 1000 :: real)"
  have pos: "sinh (1 :: real) \<noteq> 0" by simp
  have "sinh (999 / 1000 + 1 / 1000 :: real)
        = sinh (999 / 1000) * ch + cosh (999 / 1000) * sh"
    by (simp only: sinh_add sh_def ch_def)
  then have "sinh (1 :: real) = sinh (999 / 1000) * ch + cosh (999 / 1000) * sh" by simp
  then have "sinh (1 :: real) / sinh 1
             = (sinh (999 / 1000) * ch + cosh (999 / 1000) * sh) / sinh 1"
    by simp
  then have one: "1 = S * ch + C * sh"
    using pos by (simp add: S_def C_def sinh_seq_def cosh_seq_def add_divide_distrib)
  have S: "0 \<le> S" "S \<le> 1" using sinh_seq_bounds [of 999] by (simp_all add: S_def)
  have C: "0 \<le> C" "C \<le> 2" using cosh_seq_bounds [of 999] by (simp_all add: C_def)
  have shb: "0 \<le> sh" "sh \<le> 1 / 1000 + 167 / 10 ^ 12"
    using sinh_small_bounds by (simp_all add: sh_def)
  have chb: "ch \<le> 1 + 1 / 2000000 + 1 / 10 ^ 13"
    using cosh_small_bounds by (simp add: ch_def)
  have "C * sh \<le> 2 * (1 / 1000 + 167 / 10 ^ 12)"
    using C shb by (intro mult_mono) simp_all
  then have a: "1 - 2 * (1 / 1000 + 167 / 10 ^ 12) \<le> S * ch" using one by linarith
  have "S * ch \<le> S * (1 + 1 / 2000000 + 1 / 10 ^ 13)"
    using S(1) chb by (intro mult_left_mono)
  with a have "1 - 2 * (1 / 1000 + 167 / 10 ^ 12) \<le> S * (1 + 1 / 2000000 + 1 / 10 ^ 13)"
    by (rule order_trans)
  then have "997 / 1000 \<le> S" by simp
  then show ?thesis by (simp only: S_def)
qed

lemma np_pi_bounds: "31415 / 10000 \<le> np_pi" "np_pi \<le> 31416 / 10000"
  by (simp_all add: np_pi_def)

lemma sin_step_bounds:
  "31445 / 10 ^ 7 \<le> sin (np_pi / 999)" "sin (np_pi / 999) \<le> 31448 / 10 ^ 7"
proof -
  let ?t = "np_pi / 999"
  have lo: "31446 / 10 ^ 7 \<le> ?t" and hi: "?t \<le> 31448 / 10 ^ 7"
    by (simp_all add: np_pi_def)
  have t0: "0 \<le> ?t" using np_pi_range by simp
  have "(\<Sum>m<3. sin_coeff m * ?t ^ m) = ?t"
    by (simp add: sin_coeff_def numeral_3_eq_3)
  then have "\<bar>sin ?t - ?t\<bar> \<le> inverse (fact 3) * \<bar>?t\<bar> ^ 3"
    using Maclaurin_sin_bound [of ?t 3] by simp
  moreover have "\<bar>?t\<bar> ^ 3 \<le> (31448 / 10 ^ 7) ^ 3"
    using hi t0 by (intro power_mono) simp_all
  then have "inverse (fact 3) * \<bar>?t\<bar> ^ 3 \<le> inverse (fact 3) * (31448 / 10 ^ 7) ^ 3"
    by (intro mult_left_mono) simp_all
  ultimately have "\<bar>sin ?t - ?t\<bar> \<le> inverse (fact 3) * (31448 / 10 ^ 7) ^ 3" by linarith
  moreover have "inverse (fact 3 :: real) * (31448 / 10 ^ 7) ^ 3 \<le> 1 / 10 ^ 7"
    by (simp add: fact_numeral power3_eq_cube)
  ultimately show "31445 / 10 ^ 7 \<le> sin ?t" using lo by linarith
  show "sin ?t \<le> 31448 / 10 ^ 7" using sin_x_le_x [OF t0] hi by linarith
qed

lemma sine_seq_999: "sine_seq 999 = sin np_pi"
  by (simp add: sine_seq_def)

lemma sine_seq_998_bounds: "314 / 100000 \<le> sine_seq 998" "sine_seq 998 \<le> 3145 / 10 ^ 6"
proof -
  let ?t = "np_pi / 999"
  define e where "e = sin np_pi"
  define c where "c = cos np_pi"
  define st where "st = sin ?t"
  define ct where "ct = cos ?t"
  have "real 998 * ?t = np_pi - ?t" by simp
  then have "sine_seq 998 = sin (np_pi - ?t)" by (simp only: sine_seq_def)
  then have E: "sine_seq 998 = e * ct - c * st"
    by (simp only: sin_diff e_def c_def st_def ct_def)
  have e: "0 \<le> e" "e \<le> 2 / 10 ^ 16" using sin_np_pi by (simp_all add: e_def)
  have c: "- 1 \<le> c" "c \<le> - (999 / 1000)" using cos_np_pi by (simp_all add: c_def)
  have st: "31445 / 10 ^ 7 \<le> st" "st \<le> 31448 / 10 ^ 7"
    using sin_step_bounds by (simp_all add: st_def)
  have t: "0 \<le> ?t" "?t \<le> 1" using np_pi_range by simp_all
  have "?t \<le> pi / 2" using t(2) pi_ge_two by linarith
  then have "0 \<le> cos ?t" using t(1) by (intro cos_ge_zero) linarith+
  then have ct: "0 \<le> ct" "ct \<le> 1" by (simp_all add: ct_def)
  have ect: "0 \<le> e * ct" using e(1) ct(1) by simp
  have "e * ct \<le> (2 / 10 ^ 16) * 1" using e ct by (intro mult_mono) simp_all
  then have ect': "e * ct \<le> 2 / 10 ^ 16" by simp
  have "(999 / 1000) * (31445 / 10 ^ 7) \<le> (- c) * st"
    using c st by (intro mult_mono) simp_all
  then have cst: "(999 / 1000) * (31445 / 10 ^ 7) \<le> - (c * st)" by simp
  have "(- c) * st \<le> 1 * (31448 / 10 ^ 7)"
    using c st by (intro mult_mono) simp_all
  then have cst': "- (c * st) \<le> 31448 / 10 ^ 7" by simp
  show "314 / 100000 \<le> sine_seq 998" unfolding E using ect cst by simp
  show "sine_seq 998 \<le> 3145 / 10 ^ 6" unfolding E using ect' cst' by simp
qed

lemma sine_seq_abs: "\<bar>sine_seq i\<bar> \<le> 1"
  by (simp add: sine_seq_def)

lemma sinh_seq_998:
  "sinh_seq 998 = sinh_seq 999 * cosh (1 / 1000) - cosh_seq 999 * sinh (1 / 1000)"
proof -
  have "sinh (999 / 1000 - 1 / 1000 :: real)
        = sinh (999 / 1000) * cosh (1 / 1000) - cosh (999 / 1000) * sinh (1 / 1000)"
    by (simp only: sinh_diff)
  then have "sinh (998 / 1000 :: real)
        = sinh (999 / 1000) * cosh (1 / 1000) - cosh (999 / 1000) * sinh (1 / 1000)"
    by simp
  then show ?thesis
    by (simp add: sinh_seq_def cosh_seq_def diff_divide_distrib)
qed

lemma cross_functional_closed:
  "cross_functional x_pts ref_pts sine_pts
   = (2 * (1 / 1000) - 2 * (sinh (1 / 1000))\<^sup>2 / (1 / 1000))
       * (\<Sum>j<998. sinh_seq (Suc j) * sine_seq (Suc j))
     + sine_seq 998 * sinh_seq 999 * ((cosh (1 / 1000) - 1) / (1 / 1000))
     + sine_seq 999
       * (sinh (1 / 1000) / (1 / 1000) * cosh_seq 998
          + (sinh_seq 999 * cosh (1 / 1000) - cosh_seq 999 * sinh (1 / 1000)) / 2
          + (1 + 1 / 2000)
            * ((sinh_seq 999 - (sinh_seq 999 * cosh (1 / 1000) - cosh_seq 999 * sinh (1 / 1000)))
               / (1 / 1000))
          + (1 / 2 + 1 / 1000) * sinh_seq 999)"
proof -
  define sh where "sh = sinh (1 / 1000 :: real)"
  define ch where "ch = cosh (1 / 1000 :: real)"
  define S9 where "S9 = sinh_seq 999"
  define C0 where "C0 = cosh_seq 0"
  define C8 where "C8 = cosh_seq 998"
  define C9 where "C9 = cosh_seq 999"
  define E1 where "E1 = sine_seq 1"
  define E8 where "E8 = sine_seq 998"
  define E9 where "E9 = sine_seq 999"
  define T where "T = (\<Sum>j<998. sinh_seq (Suc j) * sine_seq (Suc j))"
  have z: "sinh_seq 0 = 0" "sine_seq 0 = 0"
    by (simp_all add: sinh_seq_def sine_seq_def)
  have r1: "sinh_seq 1 = sh * C0"
    by (simp add: sinh_seq_def cosh_seq_def sh_def C0_def)
  have r2: "sinh_seq 998 = S9 * ch - C9 * sh"
    by (simp only: sinh_seq_998 S9_def C9_def sh_def ch_def)
  have "cross_functional x_pts ref_pts sine_pts
        = (1 / 1000)
            * (2 * ((sh * C0) / (1 / 1000)) * (E1 / (1 / 1000))
               + (2 * ((S9 - (S9 * ch - C9 * sh)) / (1 / 1000)) * ((E9 - E8) / (1 / 1000))
                  + S9 * ((E9 - E8) / (1 / 1000))
                  + E9 * ((S9 - (S9 * ch - C9 * sh)) / (1 / 1000))
                  + 2 * S9 * E9)) / 2
          + ((2 * (1 / 1000) - 2 * sh\<^sup>2 / (1 / 1000)) * T
             + (sh / (1 / 1000)) * ((C8 * E9 + C9 * E8) - (C0 * E1 + cosh_seq 1 * 0))
             + (((S9 * ch - C9 * sh) * E9 + S9 * E8) - (0 * E1 + (sh * C0) * 0)) / 2)"
    unfolding cross_functional_trapezoid cross_integrand_first cross_integrand_last
      cross_interior_sum z r1 r2
    by (simp only: sh_def S9_def C0_def C8_def C9_def E1_def E8_def E9_def T_def)
  also have "\<dots> = (2 * (1 / 1000) - 2 * sh\<^sup>2 / (1 / 1000)) * T
                   + E8 * S9 * ((ch - 1) / (1 / 1000))
                   + E9 * (sh / (1 / 1000) * C8 + (S9 * ch - C9 * sh) / 2
                           + (1 + 1 / 2000) * ((S9 - (S9 * ch - C9 * sh)) / (1 / 1000))
                           + (1 / 2 + 1 / 1000) * S9)"
    by (simp add: field_simps)
  finally show ?thesis
    by (simp only: sh_def ch_def S9_def C8_def C9_def E8_def E9_def T_def)
qed

lemma cross_functional_bounds:
  "8 / 10 ^ 7 \<le> cross_functional x_pts ref_pts sine_pts"
  "cross_functional x_pts ref_pts sine_pts \<le> 23 / 10 ^ 7"
proof -
  define sigma where "sigma = 2 * (1 / 1000) - 2 * (sinh (1 / 1000 :: real))\<^sup>2 / (1 / 1000)"
  define T where "T = (\<Sum>j<998. sinh_seq (Suc j) * sine_seq (Suc j))"
  define q where "q = (cosh (1 / 1000 :: real) - 1) / (1 / 1000)"
  define E8 where "E8 = sine_seq 998"
  define E9 where "E9 = sine_seq 999"
  define S9 where "S9 = sinh_seq 999"
  define k where "k = sinh (1 / 1000 :: real) / (1 / 1000)"
  define C8 where "C8 = cosh_seq 998"
  define S8 where "S8 = sinh_seq 999 * cosh (1 / 1000) - cosh_seq 999 * sinh (1 / 1000)"
  define D where "D = (S9 - S8) / (1 / 1000)"
  define R where "R = k * C8 + S8 / 2 + (1 + 1 / 2000) * D + (1 / 2 + 1 / 1000) * S9"
  have L: "cross_functional x_pts ref_pts sine_pts = sigma * T + E8 * S9 * q + E9 * R"
    unfolding cross_functional_closed
    by (simp only: sigma_def T_def q_def E8_def E9_def S9_def k_def C8_def S8_def D_def R_def)
  have prod: "\<bar>sinh_seq i * sine_seq j\<bar> \<le> 1" if "i \<le> 1000" for i j
  proof -
    have "\<bar>sinh_seq i\<bar> \<le> 1" using sinh_seq_bounds [OF that] by simp
    then have "\<bar>sinh_seq i\<bar> * \<bar>sine_seq j\<bar> \<le> 1 * 1"
      using sine_seq_abs [of j] by (intro mult_mono) simp_all
    then show ?thesis by (simp add: abs_mult)
  qed
  have "\<bar>T\<bar> \<le> (\<Sum>j<998. \<bar>sinh_seq (Suc j) * sine_seq (Suc j)\<bar>)"
    unfolding T_def by (rule sum_abs)
  also have "\<dots> \<le> (\<Sum>j<(998::nat). (1::real))"
    by (rule sum_mono) (simp add: prod)
  finally have T: "\<bar>T\<bar> \<le> 998" by simp
  have sg: "\<bar>sigma\<bar> \<le> 67 / 10 ^ 11" using sigma_small by (simp add: sigma_def)
  have "\<bar>sigma * T\<bar> = \<bar>sigma\<bar> * \<bar>T\<bar>" by (rule abs_mult)
  also have "\<dots> \<le> (67 / 10 ^ 11) * 998" using sg T by (intro mult_mono) simp_all
  finally have sT: "\<bar>sigma * T\<bar> \<le> 66866 / 10 ^ 11" by simp
  have E8: "314 / 100000 \<le> E8" "E8 \<le> 3145 / 10 ^ 6"
    using sine_seq_998_bounds by (simp_all add: E8_def)
  have S9: "997 / 1000 \<le> S9" "S9 \<le> 1"
    using sinh_seq_999_lower sinh_seq_bounds [of 999] by (simp_all add: S9_def)
  have q: "1 / 2000 \<le> q" "q \<le> 1 / 2000 + 1 / 10 ^ 10"
    using cosh_quotient_bounds by (simp_all add: q_def)
  have "(314 / 100000) * (997 / 1000) \<le> E8 * S9"
    using E8 S9 by (intro mult_mono) simp_all
  moreover have "E8 * S9 \<le> (3145 / 10 ^ 6) * 1"
    using E8 S9 by (intro mult_mono) simp_all
  ultimately have ES: "313058 / 10 ^ 8 \<le> E8 * S9" "E8 * S9 \<le> 3145 / 10 ^ 6" by simp_all
  have "(313058 / 10 ^ 8) * (1 / 2000) \<le> E8 * S9 * q"
    using ES q by (intro mult_mono) simp_all
  then have Blo: "156529 / 10 ^ 11 \<le> E8 * S9 * q" by simp
  have "E8 * S9 * q \<le> (3145 / 10 ^ 6) * (1 / 2000 + 1 / 10 ^ 10)"
    using ES q by (intro mult_mono) simp_all
  then have Bhi: "E8 * S9 * q \<le> 15726 / 10 ^ 10" by simp
  have E9: "0 \<le> E9" "E9 \<le> 2 / 10 ^ 16"
    using sin_np_pi by (simp_all add: E9_def sine_seq_999)
  have k: "0 \<le> k" "k \<le> 1001 / 1000"
    using sinh_small_bounds by (simp_all add: k_def)
  have C8: "0 \<le> C8" "C8 \<le> 2" using cosh_seq_bounds [of 998] by (simp_all add: C8_def)
  have S8e: "S8 = sinh_seq 998" by (simp only: S8_def sinh_seq_998)
  have S8: "0 \<le> S8" "S8 \<le> 1" using sinh_seq_bounds [of 998] by (simp_all add: S8e)
  have "sinh (998 / 1000 :: real) \<le> sinh (999 / 1000)" by simp
  then have "sinh (998 / 1000 :: real) / sinh 1 \<le> sinh (999 / 1000) / sinh 1"
    by (intro divide_right_mono) simp_all
  then have mono: "S8 \<le> S9" by (simp add: S8e S9_def sinh_seq_def)
  have C9: "0 \<le> cosh_seq 999" "cosh_seq 999 \<le> 2" using cosh_seq_bounds [of 999] by simp_all
  have shb: "0 \<le> sinh (1 / 1000 :: real)" "sinh (1 / 1000 :: real) \<le> 1001 / 1000000"
    using sinh_small_bounds by simp_all
  have "cosh_seq 999 * sinh (1 / 1000) \<le> 2 * (1001 / 1000000)"
    using C9 shb by (intro mult_mono) simp_all
  moreover have "S9 * 1 \<le> S9 * cosh (1 / 1000)"
    using S9(1) cosh_real_ge_1 [of "1 / 1000"] by (intro mult_left_mono) simp_all
  ultimately have "S9 - S8 \<le> 2 * (1001 / 1000000)" unfolding S8_def S9_def by simp
  then have D: "0 \<le> D" "D \<le> 2002 / 1000" using mono by (simp_all add: D_def)
  have kC: "0 \<le> k * C8" "k * C8 \<le> (1001 / 1000) * 2"
    using k C8 by (simp, intro mult_mono) simp_all
  have R: "0 \<le> R" "R \<le> 6" unfolding R_def using kC S8 D S9 by simp_all
  have "E9 * R \<le> (2 / 10 ^ 16) * 6" using E9 R by (intro mult_mono) simp_all
  then have eRhi: "E9 * R \<le> 12 / 10 ^ 16" by simp
  have eRlo: "0 \<le> E9 * R" using E9 R by simp
  show "8 / 10 ^ 7 \<le> cross_functional x_pts ref_pts sine_pts"
    unfolding L using sT Blo eRlo by simp
  show "cross_functional x_pts ref_pts sine_pts \<le> 23 / 10 ^ 7"
    unfolding L using sT Bhi eRhi by simp
qed

lemma sine_derivative:
  assumes "i < 999"
  shows "spec_derivative x_pts sine_pts i
         = sin (np_pi / 999) / (1 / 1000) * cos (real i * (np_pi / 999))"
proof -
  let ?t = "np_pi / 999"
  consider "i = 0" | "0 < i" "i < 999" using assms by linarith
  then show ?thesis
  proof cases
    case 1
    then show ?thesis
      using session_derivative [of 0 sine_pts] by (simp add: nth_sine_pts)
  next
    case 2
    obtain k where k: "i = Suc k" using 2 by (cases i) auto
    have p: "real (i + 1) * ?t = real i * ?t + ?t" and m: "real (i - 1) * ?t = real i * ?t - ?t"
      unfolding k by (simp_all add: algebra_simps)
    have "sin (real i * ?t + ?t) - sin (real i * ?t - ?t) = 2 * sin ?t * cos (real i * ?t)"
      by (simp add: sin_add sin_diff)
    then have "sine_pts ! (i + 1) - sine_pts ! (i - 1) = 2 * sin ?t * cos (real i * ?t)"
      using 2 by (simp only: nth_sine_pts p m)
    then show ?thesis
      using 2 session_derivative [of i sine_pts] by simp
  qed
qed

lemma sine_derivative_last:
  "spec_derivative x_pts sine_pts 999 = (sine_seq 999 - sine_seq 998) / (1 / 1000)"
  using session_derivative [of 999 sine_pts] by (simp add: sine_pts_seq)

lemma quadratic_form_bounds:
  fixes d e :: real
  shows "0 \<le> d\<^sup>2 + e * d + e\<^sup>2" "d\<^sup>2 + e * d + e\<^sup>2 \<le> 3 / 2 * (d\<^sup>2 + e\<^sup>2)"
    "(d\<^sup>2 + e\<^sup>2) / 2 \<le> d\<^sup>2 + e * d + e\<^sup>2"
proof -
  define a where "a = d\<^sup>2"
  define b where "b = e * d"
  define c where "c = e\<^sup>2"
  have "0 \<le> (d + e)\<^sup>2" by simp
  also have "(d + e)\<^sup>2 = a + 2 * b + c"
    by (simp add: a_def b_def c_def power2_eq_square algebra_simps)
  finally have p: "0 \<le> a + 2 * b + c" .
  have "0 \<le> (d - e)\<^sup>2" by simp
  also have "(d - e)\<^sup>2 = a - 2 * b + c"
    by (simp add: a_def b_def c_def power2_eq_square algebra_simps)
  finally have m: "0 \<le> a - 2 * b + c" .
  have sq: "0 \<le> a" "0 \<le> c" by (simp_all add: a_def c_def)
  have "0 \<le> a + b + c" using p sq by linarith
  then show "0 \<le> d\<^sup>2 + e * d + e\<^sup>2" by (simp only: a_def b_def c_def)
  have "a + b + c \<le> 3 / 2 * a + 3 / 2 * c" using m by linarith
  then have "a + b + c \<le> 3 / 2 * (a + c)" by (simp only: distrib_left)
  then show "d\<^sup>2 + e * d + e\<^sup>2 \<le> 3 / 2 * (d\<^sup>2 + e\<^sup>2)" by (simp only: a_def b_def c_def)
  have "a / 2 + c / 2 \<le> a + b + c" using p by linarith
  then have "(a + c) / 2 \<le> a + b + c" by (simp only: add_divide_distrib)
  then show "(d\<^sup>2 + e\<^sup>2) / 2 \<le> d\<^sup>2 + e * d + e\<^sup>2" by (simp only: a_def b_def c_def)
qed

lemma sine_integrand_interior:
  assumes "i < 999"
  shows "1 / 2 \<le> spec_integrand x_pts sine_pts i" "spec_integrand x_pts sine_pts i \<le> 15"
proof -
  define mu where "mu = sin (np_pi / 999) / (1 / 1000)"
  define c where "c = cos (real i * (np_pi / 999))"
  define e where "e = sin (real i * (np_pi / 999))"
  have i: "i < 1000" using assms by simp
  have q: "spec_integrand x_pts sine_pts i = (mu * c)\<^sup>2 + e * (mu * c) + e\<^sup>2"
    unfolding spec_integrand_def sine_derivative [OF assms] nth_sine_pts [OF i]
    by (simp only: mu_def c_def e_def)
  have mu: "1 \<le> mu" "mu \<le> 31448 / 10000" using sin_step_bounds by (simp_all add: mu_def)
  have ce: "c\<^sup>2 + e\<^sup>2 = 1" by (simp add: c_def e_def)
  have c2: "0 \<le> c\<^sup>2" and e2: "0 \<le> e\<^sup>2" by simp_all
  have m1: "1 \<le> mu\<^sup>2" using mu(1) by (rule one_le_power)
  have "mu\<^sup>2 \<le> (31448 / 10000)\<^sup>2" using mu by (intro power_mono) simp_all
  then have m2: "mu\<^sup>2 \<le> 989 / 100" by (simp add: power2_eq_square)
  have "1 * c\<^sup>2 \<le> mu\<^sup>2 * c\<^sup>2" using m1 by (intro mult_right_mono) simp_all
  then have A: "1 \<le> (mu * c)\<^sup>2 + e\<^sup>2" using ce by (simp add: power_mult_distrib)
  have "1 * e\<^sup>2 \<le> mu\<^sup>2 * e\<^sup>2" using m1 by (intro mult_right_mono) simp_all
  then have "(mu * c)\<^sup>2 + e\<^sup>2 \<le> mu\<^sup>2 * c\<^sup>2 + mu\<^sup>2 * e\<^sup>2"
    by (simp add: power_mult_distrib)
  also have "\<dots> = mu\<^sup>2 * (c\<^sup>2 + e\<^sup>2)" by (simp add: algebra_simps)
  also have "\<dots> = mu\<^sup>2" using ce by simp
  finally have B: "(mu * c)\<^sup>2 + e\<^sup>2 \<le> 989 / 100" using m2 by linarith
  have "1 / 2 \<le> ((mu * c)\<^sup>2 + e\<^sup>2) / 2" using A by simp
  then show "1 / 2 \<le> spec_integrand x_pts sine_pts i"
    unfolding q using quadratic_form_bounds(3) [of "mu * c" e] by (rule order_trans)
  have "3 / 2 * ((mu * c)\<^sup>2 + e\<^sup>2) \<le> 15" using B by simp
  with quadratic_form_bounds(2) [of "mu * c" e]
  show "spec_integrand x_pts sine_pts i \<le> 15"
    unfolding q by (rule order_trans)
qed

lemma sine_integrand_last:
  "0 \<le> spec_integrand x_pts sine_pts 999" "spec_integrand x_pts sine_pts 999 \<le> 15"
proof -
  define E8 where "E8 = sine_seq 998"
  define E9 where "E9 = sine_seq 999"
  define d where "d = (E9 - E8) / (1 / 1000)"
  have q: "spec_integrand x_pts sine_pts 999 = d\<^sup>2 + E9 * d + E9\<^sup>2"
    unfolding spec_integrand_def sine_derivative_last
    by (simp add: sine_pts_seq d_def E8_def E9_def)
  have E8: "314 / 100000 \<le> E8" "E8 \<le> 3145 / 10 ^ 6"
    using sine_seq_998_bounds by (simp_all add: E8_def)
  have E9: "0 \<le> E9" "E9 \<le> 2 / 10 ^ 16"
    using sin_np_pi by (simp_all add: E9_def sine_seq_999)
  have d: "\<bar>d\<bar> \<le> 3145 / 1000" using E8 E9 by (simp add: d_def abs_le_iff)
  have "\<bar>d\<bar>\<^sup>2 \<le> (3145 / 1000)\<^sup>2" using d by (intro power_mono) simp_all
  then have d2: "d\<^sup>2 \<le> 9892 / 1000" by (simp add: power2_eq_square)
  have "E9\<^sup>2 \<le> (2 / 10 ^ 16)\<^sup>2" using E9 by (intro power_mono) simp_all
  then have e2: "E9\<^sup>2 \<le> 1 / 1000" by (simp add: power2_eq_square)
  show "0 \<le> spec_integrand x_pts sine_pts 999"
    unfolding q by (rule quadratic_form_bounds(1))
  have "3 / 2 * (d\<^sup>2 + E9\<^sup>2) \<le> 15" using d2 e2 by simp
  with quadratic_form_bounds(2) [of d E9]
  show "spec_integrand x_pts sine_pts 999 \<le> 15"
    unfolding q by (rule order_trans)
qed

lemma sine_integrand_bounds:
  assumes "i < 1000"
  shows "0 \<le> spec_integrand x_pts sine_pts i" "spec_integrand x_pts sine_pts i \<le> 15"
proof -
  consider "i < 999" | "i = 999" using assms by linarith
  then show "0 \<le> spec_integrand x_pts sine_pts i"
  proof cases
    case 1
    then show ?thesis using sine_integrand_interior(1) [of i] by simp
  next
    case 2
    then show ?thesis using sine_integrand_last(1) by simp
  qed
  consider "i < 999" | "i = 999" using assms by linarith
  then show "spec_integrand x_pts sine_pts i \<le> 15"
  proof cases
    case 1
    then show ?thesis by (rule sine_integrand_interior(2))
  next
    case 2
    then show ?thesis using sine_integrand_last(2) by simp
  qed
qed

lemma sine_functional_bounds:
  "999 / 4000 \<le> spec_functional x_pts sine_pts" "spec_functional x_pts sine_pts \<le> 15"
proof -
  let ?q = "spec_integrand x_pts sine_pts"
  have panel: "1 / 4000 \<le> (x_pts ! (i + 1) - x_pts ! i) * (?q i + ?q (i + 1)) / 2
               \<and> (x_pts ! (i + 1) - x_pts ! i) * (?q i + ?q (i + 1)) / 2 \<le> 15 / 1000"
    if "i \<in> set [0..<length x_pts - 1]" for i
  proof -
    have i: "i < 999" "i < 1000" "i + 1 < 1000" using that by (simp_all add: length_x_pts)
    have h: "x_pts ! (i + 1) - x_pts ! i = 1 / 1000"
      using i by (simp add: nth_x_pts field_simps)
    have lo: "1 / 2 \<le> ?q i + ?q (i + 1)"
      using sine_integrand_interior(1) [OF i(1)] sine_integrand_bounds(1) [OF i(3)] by linarith
    have hi: "?q i + ?q (i + 1) \<le> 30"
      using sine_integrand_bounds(2) [OF i(2)] sine_integrand_bounds(2) [OF i(3)] by linarith
    show ?thesis unfolding h using lo hi by simp
  qed
  have "sum_list (map (\<lambda>i. 1 / 4000 :: real) [0..<length x_pts - 1])
        \<le> sum_list (map (\<lambda>i. (x_pts ! (i + 1) - x_pts ! i) * (?q i + ?q (i + 1)) / 2)
                         [0..<length x_pts - 1])"
    by (rule sum_list_mono) (simp only: panel)
  moreover have "sum_list (map (\<lambda>i. 1 / 4000 :: real) [0..<length x_pts - 1]) = 999 / 4000"
    by (simp add: sum_list_triv length_x_pts)
  ultimately show "999 / 4000 \<le> spec_functional x_pts sine_pts"
    by (simp only: spec_functional_def)
  have "sum_list (map (\<lambda>i. (x_pts ! (i + 1) - x_pts ! i) * (?q i + ?q (i + 1)) / 2)
                      [0..<length x_pts - 1])
        \<le> sum_list (map (\<lambda>i. 15 / 1000 :: real) [0..<length x_pts - 1])"
    by (rule sum_list_mono) (simp only: panel)
  moreover have "sum_list (map (\<lambda>i. 15 / 1000 :: real) [0..<length x_pts - 1]) \<le> 15"
    by (simp add: sum_list_triv length_x_pts)
  ultimately show "spec_functional x_pts sine_pts \<le> 15"
    by (simp only: spec_functional_def)
qed

lemma exact_sine_functional:
  "evaluate_functional x_pts (ew_add ref_pts (map (\<lambda>v. alpha * v) sine_pts))
   = Inr (spec_functional x_pts ref_pts + alpha * cross_functional x_pts ref_pts sine_pts
          + alpha\<^sup>2 * spec_functional x_pts sine_pts)"
proof -
  let ?y = "ew_add ref_pts (map (\<lambda>v. alpha * v) sine_pts)"
  have len: "length ?y = length x_pts"
    by (simp add: ew_add_def length_ref_pts length_sine_pts length_x_pts)
  have n: "2 \<le> length x_pts" by (simp add: length_x_pts)
  have "spec_functional x_pts ?y
        = spec_functional x_pts ref_pts + alpha * cross_functional x_pts ref_pts sine_pts
          + alpha\<^sup>2 * spec_functional x_pts sine_pts"
    using n nth_exact_sine by (rule spec_functional_quadratic)
  then show ?thesis using evaluate_functional_session [OF len] by simp
qed

lemma scan_dip:
  "(- (1 / 25000000)) * cross_functional x_pts ref_pts sine_pts
     + (- (1 / 25000000))\<^sup>2 * spec_functional x_pts sine_pts < 0"
proof -
  define L where "L = cross_functional x_pts ref_pts sine_pts"
  define Q where "Q = spec_functional x_pts sine_pts"
  have L: "8 / 10 ^ 7 \<le> L" unfolding L_def by (rule cross_functional_bounds(1))
  have Q: "Q \<le> 15" unfolding Q_def by (rule sine_functional_bounds(2))
  have "(- (1 / 25000000)) * L + (- (1 / 25000000))\<^sup>2 * Q < 0"
    using L Q by (simp add: power2_eq_square)
  then show ?thesis by (simp only: L_def Q_def)
qed

lemma scan_increase:
  assumes "1 / 100000 \<le> \<bar>alpha\<bar>"
  shows "0 \<le> alpha * cross_functional x_pts ref_pts sine_pts
             + alpha\<^sup>2 * spec_functional x_pts sine_pts"
proof -
  define L where "L = cross_functional x_pts ref_pts sine_pts"
  define Q where "Q = spec_functional x_pts sine_pts"
  have L: "\<bar>L\<bar> \<le> 23 / 10 ^ 7" using cross_functional_bounds by (simp add: L_def)
  have Q: "999 / 4000 \<le> Q" unfolding Q_def by (rule sine_functional_bounds(1))
  have "\<bar>alpha\<bar> * (23 / 10 ^ 7) \<le> \<bar>alpha\<bar> * (\<bar>alpha\<bar> * (999 / 4000))"
    using assms by (intro mult_left_mono) simp_all
  also have "\<dots> = alpha\<^sup>2 * (999 / 4000)" by (simp add: power2_eq_square)
  also have "\<dots> \<le> alpha\<^sup>2 * Q" using Q by (intro mult_left_mono) simp_all
  finally have big: "\<bar>alpha\<bar> * (23 / 10 ^ 7) \<le> alpha\<^sup>2 * Q" .
  have "\<bar>alpha * L\<bar> = \<bar>alpha\<bar> * \<bar>L\<bar>" by (rule abs_mult)
  also have "\<dots> \<le> \<bar>alpha\<bar> * (23 / 10 ^ 7)" using L by (intro mult_left_mono) simp_all
  finally have "\<bar>alpha * L\<bar> \<le> alpha\<^sup>2 * Q" using big by linarith
  then have "0 \<le> alpha * L + alpha\<^sup>2 * Q" by linarith
  then show ?thesis by (simp only: L_def Q_def)
qed

lemma scan_never_far_below:
  "- (1 / 10 ^ 10) \<le> alpha * cross_functional x_pts ref_pts sine_pts
                       + alpha\<^sup>2 * spec_functional x_pts sine_pts"
proof (cases "1 / 100000 \<le> \<bar>alpha\<bar>")
  case True
  then show ?thesis using scan_increase [of alpha] by simp
next
  case False
  define L where "L = cross_functional x_pts ref_pts sine_pts"
  define Q where "Q = spec_functional x_pts sine_pts"
  have L: "\<bar>L\<bar> \<le> 23 / 10 ^ 7" using cross_functional_bounds by (simp add: L_def)
  have Q: "0 \<le> Q" using sine_functional_bounds(1) by (simp add: Q_def)
  have "\<bar>alpha * L\<bar> = \<bar>alpha\<bar> * \<bar>L\<bar>" by (rule abs_mult)
  also have "\<dots> \<le> (1 / 100000) * (23 / 10 ^ 7)" using L False by (intro mult_mono) simp_all
  finally have "- (1 / 10 ^ 10) \<le> alpha * L" by simp
  moreover have "0 \<le> alpha\<^sup>2 * Q" using Q by simp
  ultimately have "- (1 / 10 ^ 10) \<le> alpha * L + alpha\<^sup>2 * Q" by linarith
  then show ?thesis by (simp only: L_def Q_def)
qed

text \<open>
  Against claim C9 as it is worded: with the base tag \<open>exact\<close> and the deviation tag
  \<open>sine\<close>, the functional value at \<open>alpha = -1/25000000\<close>, which lies in the range
  \<open>[-1, 1]\<close> of the slider, is strictly less than the value at \<open>alpha = 0\<close>. So the value
  at \<open>0\<close> is greater than the value at some \<open>alpha\<close> of the range, and the least value of
  the scan is not attained at \<open>alpha = 0\<close>: the trapezoid sum of the one-sided and central
  differences has a first-order term in \<open>alpha\<close> of about \<open>1.4e-6\<close>, which the end-point
  differences of \<open>y_star\<close> and of the sine leave over.
\<close>

theorem exact_sine_scan_dips_below_value_at_zero:
  "\<exists>y0 y v0 v.
     y_new_pts 0 ''exact'' ''sine'' = Inr y0 \<and> evaluate_functional x_pts y0 = Inr v0
     \<and> y_new_pts (- (1 / 25000000)) ''exact'' ''sine'' = Inr y
     \<and> evaluate_functional x_pts y = Inr v
     \<and> v < v0"
proof -
  let ?y = "\<lambda>a. ew_add ref_pts (map (\<lambda>v. a * v) sine_pts)"
  let ?v = "\<lambda>a. spec_functional x_pts ref_pts + a * cross_functional x_pts ref_pts sine_pts
                 + a\<^sup>2 * spec_functional x_pts sine_pts"
  have dip: "?v (- (1 / 25000000)) < ?v 0" using scan_dip by simp
  have "y_new_pts 0 ''exact'' ''sine'' = Inr (?y 0)
        \<and> evaluate_functional x_pts (?y 0) = Inr (?v 0)
        \<and> y_new_pts (- (1 / 25000000)) ''exact'' ''sine'' = Inr (?y (- (1 / 25000000)))
        \<and> evaluate_functional x_pts (?y (- (1 / 25000000))) = Inr (?v (- (1 / 25000000)))
        \<and> ?v (- (1 / 25000000)) < ?v 0"
    using dip y_new_pts_exact_sine exact_sine_functional by (intro conjI)
  then show ?thesis by (intro exI)
qed

text \<open>
  Claim C9, amended. With the base tag \<open>exact\<close> and the deviation tag \<open>sine\<close>, the
  functional value at \<open>alpha = 0\<close> is no greater than the value at any \<open>alpha\<close> of size at
  least \<open>1/100000\<close>, of either sign, so at every other position of the slider, whose step
  is \<open>0.05\<close>; and no \<open>alpha\<close> at all brings the value more than \<open>1e-10\<close> below the value
  at \<open>0\<close>. So the scan has its least value very near \<open>alpha = 0\<close>, within \<open>1/100000\<close> of
  it, and not at \<open>0\<close> itself.
\<close>

theorem exact_sine_scan_least_near_zero:
  "\<exists>y0 y v0 v.
     y_new_pts 0 ''exact'' ''sine'' = Inr y0 \<and> evaluate_functional x_pts y0 = Inr v0
     \<and> y_new_pts alpha ''exact'' ''sine'' = Inr y \<and> evaluate_functional x_pts y = Inr v
     \<and> v0 - 1 / 10 ^ 10 \<le> v
     \<and> (1 / 100000 \<le> \<bar>alpha\<bar> \<longrightarrow> v0 \<le> v)"
proof -
  let ?y = "\<lambda>a. ew_add ref_pts (map (\<lambda>v. a * v) sine_pts)"
  let ?v = "\<lambda>a. spec_functional x_pts ref_pts + a * cross_functional x_pts ref_pts sine_pts
                 + a\<^sup>2 * spec_functional x_pts sine_pts"
  have near: "?v 0 - 1 / 10 ^ 10 \<le> ?v alpha" using scan_never_far_below [of alpha] by simp
  have least: "1 / 100000 \<le> \<bar>alpha\<bar> \<longrightarrow> ?v 0 \<le> ?v alpha"
    using scan_increase [of alpha] by simp
  have "y_new_pts 0 ''exact'' ''sine'' = Inr (?y 0) \<and> evaluate_functional x_pts (?y 0) = Inr (?v 0)
           \<and> y_new_pts alpha ''exact'' ''sine'' = Inr (?y alpha)
           \<and> evaluate_functional x_pts (?y alpha) = Inr (?v alpha)
           \<and> ?v 0 - 1 / 10 ^ 10 \<le> ?v alpha
           \<and> (1 / 100000 \<le> \<bar>alpha\<bar> \<longrightarrow> ?v 0 \<le> ?v alpha)"
    using near least y_new_pts_exact_sine exact_sine_functional by (intro conjI)
  then show ?thesis by (intro exI)
qed

theorem exact_sine_scan_least_near_zero_witness:
  "1 / 100000 \<le> \<bar>1 / 20 :: real\<bar>
   \<and> (\<exists>y0 y v0 v.
         y_new_pts 0 ''exact'' ''sine'' = Inr y0 \<and> evaluate_functional x_pts y0 = Inr v0
         \<and> y_new_pts (1 / 20) ''exact'' ''sine'' = Inr y \<and> evaluate_functional x_pts y = Inr v
         \<and> v0 \<le> v)"
proof -
  have a: "1 / 100000 \<le> \<bar>1 / 20 :: real\<bar>" by simp
  from exact_sine_scan_least_near_zero [of "1 / 20"]
  obtain y0 y v0 v where
    "y_new_pts 0 ''exact'' ''sine'' = Inr y0" "evaluate_functional x_pts y0 = Inr v0"
    "y_new_pts (1 / 20) ''exact'' ''sine'' = Inr y" "evaluate_functional x_pts y = Inr v"
    "1 / 100000 \<le> \<bar>1 / 20 :: real\<bar> \<longrightarrow> v0 \<le> v"
    by blast
  with a show ?thesis by blast
qed

end
